theory Spec2Isabelle
  imports Main
begin

section \<open>Errors and results\<close>

text \<open>
  The exceptions the rendering code can meet. A computation that may raise returns
  \<open>error + 'a\<close>, with \<open>Inl\<close> for the exception.
\<close>

datatype error =
    IndexError
  | KeyError
  | AttributeError
  | TypeError
  | FileNotFoundError
  | PackageNotFoundError

definition bind_err :: "error + 'a \<Rightarrow> ('a \<Rightarrow> error + 'b) \<Rightarrow> error + 'b" where
  "bind_err m f = (case m of Inl e \<Rightarrow> Inl e | Inr x \<Rightarrow> f x)"

definition py_index :: "'a list \<Rightarrow> nat \<Rightarrow> error + 'a" where
  \<comment> \<open>\<open>xs[i]\<close> for a non-negative index: out of range raises IndexError.\<close>
  "py_index xs i = (if i < length xs then Inr (xs ! i) else Inl IndexError)"

section \<open>Content values\<close>

text \<open>
  The content tree is what \<open>json.loads\<close> returned: dictionaries, lists, strings, integers,
  booleans and \<open>None\<close>. The code reads it by duck typing, so each access is modelled on
  every value, with the exception Python raises on the wrong kind. A dictionary is an
  association list in insertion order with distinct keys. (Floating point numbers are left
  out: no access of the code tells them from integers.) A string is the list of its
  characters, taken as the code points below 256.
\<close>

datatype json =
    JNull
  | JBool bool
  | JInt int
  | JStr string
  | JArr "json list"
  | JObj "(string \<times> json) list"

definition py_get :: "json \<Rightarrow> string \<Rightarrow> json \<Rightarrow> error + json" where
  \<comment> \<open>\<open>obj.get(key, default)\<close>; \<open>obj.get(key)\<close> has the default \<open>None\<close>.\<close>
  "py_get obj k dflt =
     (case obj of
        JObj kvs \<Rightarrow> Inr (case map_of kvs k of None \<Rightarrow> dflt | Some v \<Rightarrow> v)
      | _ \<Rightarrow> Inl AttributeError)"

definition py_getitem :: "json \<Rightarrow> string \<Rightarrow> error + json" where
  \<comment> \<open>\<open>obj[key]\<close> with a string key.\<close>
  "py_getitem obj k =
     (case obj of
        JObj kvs \<Rightarrow> (case map_of kvs k of None \<Rightarrow> Inl KeyError | Some v \<Rightarrow> Inr v)
      | _ \<Rightarrow> Inl TypeError)"

definition py_iter :: "json \<Rightarrow> error + json list" where
  \<comment> \<open>The items a \<open>for\<close> loop visits.\<close>
  "py_iter v =
     (case v of
        JArr xs \<Rightarrow> Inr xs
      | JStr s \<Rightarrow> Inr (map (\<lambda>c. JStr [c]) s)
      | JObj kvs \<Rightarrow> Inr (map (\<lambda>kv. JStr (fst kv)) kvs)
      | _ \<Rightarrow> Inl TypeError)"

definition truthy :: "json \<Rightarrow> bool" where
  "truthy v =
     (case v of
        JNull \<Rightarrow> False
      | JBool b \<Rightarrow> b
      | JInt n \<Rightarrow> n \<noteq> 0
      | JStr s \<Rightarrow> s \<noteq> []
      | JArr xs \<Rightarrow> xs \<noteq> []
      | JObj kvs \<Rightarrow> kvs \<noteq> [])"

definition as_text :: "json \<Rightarrow> error + string" where
  \<comment> \<open>\<open>re.split\<close> accepts a string and raises TypeError on anything else.\<close>
  "as_text v = (case v of JStr s \<Rightarrow> Inr s | _ \<Rightarrow> Inl TypeError)"

section \<open>Runs and paragraphs of the document model\<close>

text \<open>
  A run of the presentation library carries its text and a font; a font attribute that was
  never assigned is \<open>None\<close> (inherited from the template). Sizes are in English Metric
  Units, colours are red-green-blue triples.
\<close>

record run =
  run_text :: string
  font_bold :: "bool option"
  font_underline :: "bool option"
  font_name :: "string option"
  font_size :: "nat option"
  font_color :: "(nat \<times> nat \<times> nat) option"

record text_paragraph =
  runs :: "run list"
  level :: nat

definition add_run :: run where
  \<comment> \<open>\<open>paragraph.add_run()\<close>: a fresh run with empty text and nothing assigned.\<close>
  "add_run = \<lparr>run_text = [], font_bold = None, font_underline = None,
              font_name = None, font_size = None, font_color = None\<rparr>"

text \<open>
  Assigning \<open>run.text\<close> does not store the string as it is: the library replaces every
  control character other than tab and line feed (the codes 0 to 8 and 11 to 31) by the
  seven characters \<open>_xHHHH_\<close>, with the code in four upper-case hexadecimal digits, and
  that is the text read back from the run.
\<close>

definition is_control :: "char \<Rightarrow> bool" where
  "is_control c = (let n = (of_char c :: nat) in n \<le> 8 \<or> (11 \<le> n \<and> n \<le> 31))"

definition hex_digit :: "nat \<Rightarrow> char" where
  "hex_digit n = ''0123456789ABCDEF'' ! n"

definition escape_char :: "char \<Rightarrow> string" where
  "escape_char c =
     (if is_control c
      then ''_x00'' @ [hex_digit ((of_char c :: nat) div 16), hex_digit ((of_char c :: nat) mod 16)]
           @ ''_''
      else [c])"

definition escape_text :: "string \<Rightarrow> string" where
  "escape_text s = concat (map escape_char s)"

definition set_text :: "run \<Rightarrow> string \<Rightarrow> run" where
  \<comment> \<open>\<open>run.text = s\<close>\<close>
  "set_text r s = r\<lparr>run_text := escape_text s\<rparr>"

section \<open>The markup parser\<close>

subsection \<open>The regular expression split\<close>

text \<open>
  \<open>re.split(r'(\*\*|__)(.*?)\1', text)\<close>. The pattern cannot match the empty string, so
  the split scans left to right for the leftmost match, emits the text before it and the
  two groups, and goes on after the match. \<open>find_close d s\<close> is the part \<open>(.*?)\1\<close>:
  the shortest run of characters other than line feed (the pattern is compiled without
  DOTALL) that is followed by the delimiter \<open>d\<close>.
\<close>

fun find_close :: "string \<Rightarrow> string \<Rightarrow> (string \<times> string) option" where
  "find_close d [] = None"
| "find_close d (c # cs) =
     (if take 2 (c # cs) = d then Some ([], drop 2 (c # cs))
      else if c = CHR 0x0A then None
      else (case find_close d cs of
              None \<Rightarrow> None
            | Some (inner, rest) \<Rightarrow> Some (c # inner, rest)))"

definition is_delim :: "string \<Rightarrow> bool" where
  "is_delim d = (d = ''**'' \<or> d = ''__'')"

definition match_at :: "string \<Rightarrow> (string \<times> string \<times> string) option" where
  \<comment> \<open>A match of the whole pattern at the start of \<open>s\<close>: delimiter, inner text, rest.\<close>
  "match_at s =
     (if is_delim (take 2 s)
      then (case find_close (take 2 s) (drop 2 s) of
              None \<Rightarrow> None
            | Some (inner, rest) \<Rightarrow> Some (take 2 s, inner, rest))
      else None)"

definition cons_first :: "char \<Rightarrow> string list \<Rightarrow> string list" where
  \<comment> \<open>One more character in front of the leading plain segment.\<close>
  "cons_first c ps = (case ps of [] \<Rightarrow> [[c]] | p # ps' \<Rightarrow> (c # p) # ps')"

lemma find_close_length:
  "find_close d s = Some (inner, rest) \<Longrightarrow> length rest \<le> length s"
proof (induction s arbitrary: inner)
  case Nil
  then show ?case by simp
next
  case (Cons c cs)
  then show ?case
    by (auto split: if_splits option.splits)
qed

lemma match_at_length:
  "match_at s = Some (d, inner, rest) \<Longrightarrow> length rest < length s"
proof -
  assume m: "match_at s = Some (d, inner, rest)"
  then have dl: "is_delim (take 2 s)"
    by (auto simp: match_at_def split: if_splits)
  from m have "find_close (take 2 s) (drop 2 s) = Some (inner, rest)"
    by (auto simp: match_at_def split: if_splits option.splits)
  then have "length rest \<le> length (drop 2 s)"
    by (rule find_close_length)
  moreover from dl have "2 \<le> length s"
    by (cases s; cases "tl s") (auto simp: is_delim_def)
  ultimately show ?thesis by simp
qed

function re_split :: "string \<Rightarrow> string list" where
  "re_split [] = [[]]"
| "re_split (c # cs) =
     (case match_at (c # cs) of
        Some (d, inner, rest) \<Rightarrow> [] # d # inner # re_split rest
      | None \<Rightarrow> cons_first c (re_split cs))"
  by pat_completeness auto
termination
  by (relation "measure length") (auto dest: match_at_length)

subsection \<open>The run-building loop\<close>

text \<open>
  \<open>for i in range(1, len(parts), 3)\<close>, with the runs added so far as the state. Reading
  \<open>parts[i + 1]\<close> is an index access that raises when out of range.
\<close>

definition styled_run :: "string \<Rightarrow> string \<Rightarrow> run" where
  "styled_run delimiter content =
     (let r = set_text add_run content
      in if delimiter = ''**'' then r\<lparr>font_bold := Some True\<rparr>
         else if delimiter = ''__'' then r\<lparr>font_underline := Some True\<rparr>
         else r)"

function md_loop :: "string list \<Rightarrow> nat \<Rightarrow> run list \<Rightarrow> error + run list" where
  "md_loop parts i rs =
     (if i < length parts then
        bind_err (py_index parts i) (\<lambda>delimiter.
        bind_err (py_index parts (i + 1)) (\<lambda>content.
          let rs1 = rs @ [styled_run delimiter content];
              rs2 = (if i + 2 < length parts
                     then rs1 @ [set_text add_run (parts ! (i + 2))]
                     else rs1)
          in md_loop parts (i + 3) rs2))
      else Inr rs)"
  by pat_completeness auto
termination
  by (relation "measure (\<lambda>(parts, i, rs). length parts - i)") auto

declare md_loop.simps [simp del]

definition process_markdown_to_runs :: "text_paragraph \<Rightarrow> json \<Rightarrow> error + text_paragraph" where
  \<comment> \<open>\<open>paragraph.clear()\<close> removes the runs and keeps the paragraph's properties.\<close>
  "process_markdown_to_runs paragraph text =
     bind_err (as_text text) (\<lambda>s.
       let parts = re_split s
       in bind_err (py_index parts 0) (\<lambda>first.
          bind_err (md_loop parts 1 [set_text add_run first]) (\<lambda>rs.
            Inr (paragraph\<lparr>runs := rs\<rparr>))))"

text \<open>
  The loop in closed form: the runs of a triple of parts, and the runs of a whole text.
  \<open>spans\<close> is shown below to be what \<open>process_markdown_to_runs\<close> stores.
\<close>

fun triple_runs :: "string list \<Rightarrow> run list" where
  "triple_runs (d # c # t # rest) =
     styled_run d c # set_text add_run t # triple_runs rest"
| "triple_runs ps = []"

definition spans :: "string \<Rightarrow> run list" where
  "spans s =
     (case re_split s of
        [] \<Rightarrow> []
      | p # rest \<Rightarrow> set_text add_run p # triple_runs rest)"

section \<open>Presentation styles\<close>

definition Pt :: "nat \<Rightarrow> nat" where
  \<comment> \<open>Points as English Metric Units.\<close>
  "Pt n = n * 12700"

definition TITLE_FONT_NAME :: string where
  "TITLE_FONT_NAME = ''Calibri Light''"

definition BODY_FONT_NAME :: string where
  "BODY_FONT_NAME = ''Calibri''"

definition TITLE_FONT_SIZE :: nat where
  "TITLE_FONT_SIZE = Pt 36"

definition BODY_FONT_SIZE :: nat where
  "BODY_FONT_SIZE = Pt 18"

definition TITLE_COLOR :: "nat \<times> nat \<times> nat" where
  "TITLE_COLOR = (0x0A, 0x2C, 0x52)"

definition BODY_COLOR :: "nat \<times> nat \<times> nat" where
  "BODY_COLOR = (0x33, 0x33, 0x33)"

section \<open>Text frames, slides and presentations\<close>

text \<open>
  A text frame is its list of paragraphs. A slide made from a layout gets one placeholder
  for each placeholder of the layout that the library clones, keyed by the placeholder's
  \<open>idx\<close>, each with a text frame of a single empty paragraph. The title shape of a slide is
  the placeholder with \<open>idx\<close> 0. Every placeholder is taken to have a text frame.
\<close>

type_synonym text_frame = "text_paragraph list"

record slide_layout =
  layout_name :: string
  layout_placeholders :: "nat list"

record slide =
  from_layout :: slide_layout
  placeholders :: "(nat \<times> text_frame) list"

record presentation =
  slide_layouts :: "slide_layout list"
  slides :: "slide list"

definition add_paragraph :: text_paragraph where
  \<comment> \<open>\<open>text_frame.add_paragraph()\<close>: a fresh paragraph, appended by the caller.\<close>
  "add_paragraph = \<lparr>runs = [], level = 0\<rparr>"

definition add_slide :: "slide_layout \<Rightarrow> slide" where
  \<comment> \<open>\<open>prs.slides.add_slide(layout)\<close>: the new slide; the renderers append it to the
      presentation once they have filled it.\<close>
  "add_slide layout =
     \<lparr>from_layout = layout,
      placeholders = map (\<lambda>idx. (idx, [add_paragraph])) (layout_placeholders layout)\<rparr>"

definition shapes_title :: "slide \<Rightarrow> text_frame option" where
  \<comment> \<open>\<open>slide.shapes.title\<close>: \<open>None\<close> when the slide has no title placeholder.\<close>
  "shapes_title sl = map_of (placeholders sl) 0"

definition text_frame_of :: "text_frame option \<Rightarrow> error + text_frame" where
  \<comment> \<open>\<open>shape.text_frame\<close>, an attribute error on \<open>None\<close>.\<close>
  "text_frame_of shape = (case shape of None \<Rightarrow> Inl AttributeError | Some tf \<Rightarrow> Inr tf)"

definition placeholders_get :: "slide \<Rightarrow> nat \<Rightarrow> error + text_frame" where
  \<comment> \<open>\<open>slide.placeholders[idx]\<close>: the index is a key, a missing one raises KeyError.\<close>
  "placeholders_get sl idx =
     (case map_of (placeholders sl) idx of None \<Rightarrow> Inl KeyError | Some tf \<Rightarrow> Inr tf)"

definition set_text_frame :: "slide \<Rightarrow> nat \<Rightarrow> text_frame \<Rightarrow> slide" where
  \<comment> \<open>The effect on the slide of the in-place changes made to a placeholder's text frame.\<close>
  "set_text_frame sl idx tf =
     sl\<lparr>placeholders := map (\<lambda>(i, old). if i = idx then (i, tf) else (i, old)) (placeholders sl)\<rparr>"

definition text_frame_clear :: "text_frame \<Rightarrow> error + text_frame" where
  \<comment> \<open>\<open>text_frame.clear()\<close> removes all paragraphs except the first, and empties that one.\<close>
  "text_frame_clear tf =
     (case tf of [] \<Rightarrow> Inl IndexError | p # ps \<Rightarrow> Inr [p\<lparr>runs := []\<rparr>])"

text \<open>
  The presentation that \<open>Presentation()\<close> opens without an argument: the library's built-in
  template, which has eleven layouts and no slide.
\<close>

definition default_presentation :: presentation where
  "default_presentation =
     \<lparr>slide_layouts =
        [\<lparr>layout_name = ''Title Slide'', layout_placeholders = [0, 1]\<rparr>,
         \<lparr>layout_name = ''Title and Content'', layout_placeholders = [0, 1]\<rparr>,
         \<lparr>layout_name = ''Section Header'', layout_placeholders = [0, 1]\<rparr>,
         \<lparr>layout_name = ''Two Content'', layout_placeholders = [0, 1, 2]\<rparr>,
         \<lparr>layout_name = ''Comparison'', layout_placeholders = [0, 1, 2, 3, 4]\<rparr>,
         \<lparr>layout_name = ''Title Only'', layout_placeholders = [0]\<rparr>,
         \<lparr>layout_name = ''Blank'', layout_placeholders = []\<rparr>,
         \<lparr>layout_name = ''Content with Caption'', layout_placeholders = [0, 1, 2]\<rparr>,
         \<lparr>layout_name = ''Picture with Caption'', layout_placeholders = [0, 1, 2]\<rparr>,
         \<lparr>layout_name = ''Title and Vertical Text'', layout_placeholders = [0, 1]\<rparr>,
         \<lparr>layout_name = ''Vertical Title and Text'', layout_placeholders = [0, 1]\<rparr>],
      slides = []\<rparr>"

text \<open>
  \<open>Presentation(path)\<close> over the packages \<open>fs\<close> that exist on disk. For a path that is
  neither a directory nor a zip file, which includes a path where nothing exists, the
  library's package reader raises its own \<open>PackageNotFoundError\<close>, a subclass of
  \<open>Exception\<close> that is unrelated to \<open>FileNotFoundError\<close>.
\<close>

definition Presentation :: "(string \<Rightarrow> presentation option) \<Rightarrow> string option \<Rightarrow> error + presentation" where
  "Presentation fs pptx =
     (case pptx of
        None \<Rightarrow> Inr default_presentation
      | Some path \<Rightarrow> (case fs path of None \<Rightarrow> Inl PackageNotFoundError | Some prs \<Rightarrow> Inr prs))"

section \<open>The style resolver\<close>

definition apply_font_style_run :: "bool \<Rightarrow> run \<Rightarrow> run" where
  \<comment> \<open>The body of the two nested loops of \<open>_apply_font_style\<close>, for one run.\<close>
  "apply_font_style_run is_title r =
     (if is_title then
        (let r1 = (if font_bold r \<noteq> Some True then r\<lparr>font_name := Some TITLE_FONT_NAME\<rparr> else r)
         in r1\<lparr>font_size := Some TITLE_FONT_SIZE, font_color := Some TITLE_COLOR\<rparr>)
      else
        (let r1 = (if font_bold r \<noteq> Some True then r\<lparr>font_name := Some BODY_FONT_NAME\<rparr> else r)
         in r1\<lparr>font_size := Some BODY_FONT_SIZE, font_color := Some BODY_COLOR\<rparr>))"

definition apply_font_style :: "text_frame \<Rightarrow> bool \<Rightarrow> text_frame" where
  "apply_font_style tf is_title =
     map (\<lambda>p. p\<lparr>runs := map (apply_font_style_run is_title) (runs p)\<rparr>) tf"

section \<open>The layout renderers\<close>

definition add_title_slide :: "presentation \<Rightarrow> json \<Rightarrow> error + presentation" where
  "add_title_slide prs content =
     bind_err (py_index (slide_layouts prs) 0) (\<lambda>slide_layout.
     let sl = add_slide slide_layout;
         title = shapes_title sl
     in bind_err (placeholders_get sl 1) (\<lambda>subtitle.
        bind_err (text_frame_of title) (\<lambda>title_tf.
        bind_err (py_index title_tf 0) (\<lambda>p0.
        bind_err (py_get content ''title'' (JStr ''Presentation Title'')) (\<lambda>t.
        bind_err (process_markdown_to_runs p0 t) (\<lambda>p1.
        bind_err (py_index subtitle 0) (\<lambda>q0.
        bind_err (py_get content ''subtitle'' (JStr [])) (\<lambda>st.
        bind_err (process_markdown_to_runs q0 st) (\<lambda>q1.
          let title_tf' = apply_font_style (title_tf[0 := p1]) True;
              subtitle' = apply_font_style (subtitle[0 := q1]) False;
              sl' = set_text_frame (set_text_frame sl 0 title_tf') 1 subtitle'
          in Inr (prs\<lparr>slides := slides prs @ [sl']\<rparr>))))))))))"

text \<open>
  \<open>for point_text in points: p = tf.add_paragraph(); ...; p.level = lvl\<close>, the loop that
  the bullet renderer runs at level 0 and the two-column renderer at level 1.
\<close>

fun add_points :: "text_frame \<Rightarrow> nat \<Rightarrow> json list \<Rightarrow> error + text_frame" where
  "add_points tf lvl [] = Inr tf"
| "add_points tf lvl (point_text # rest) =
     bind_err (process_markdown_to_runs add_paragraph point_text) (\<lambda>p.
       add_points (tf @ [p\<lparr>level := lvl\<rparr>]) lvl rest)"

definition add_bullet_points_slide :: "presentation \<Rightarrow> json \<Rightarrow> error + presentation" where
  "add_bullet_points_slide prs content =
     bind_err (py_index (slide_layouts prs) 1) (\<lambda>slide_layout.
     let sl = add_slide slide_layout;
         title_shape = shapes_title sl
     in bind_err (placeholders_get sl 1) (\<lambda>body_shape.
        bind_err (text_frame_of title_shape) (\<lambda>title_tf.
        bind_err (py_index title_tf 0) (\<lambda>p0.
        bind_err (py_get content ''title'' (JStr ''Slide Title'')) (\<lambda>t.
        bind_err (process_markdown_to_runs p0 t) (\<lambda>p1.
          let title_tf' = apply_font_style (title_tf[0 := p1]) True
          in bind_err (text_frame_clear body_shape) (\<lambda>tf.
             bind_err (py_get content ''points'' (JArr [])) (\<lambda>pts.
             bind_err (py_iter pts) (\<lambda>points.
             bind_err (add_points tf 0 points) (\<lambda>tf1.
               let sl' = set_text_frame (set_text_frame sl 0 title_tf') 1
                           (apply_font_style tf1 False)
               in Inr (prs\<lparr>slides := slides prs @ [sl']\<rparr>)))))))))))"

text \<open>
  One column of the two-column renderer: the region is cleared, the heading is appended at
  level 0 when \<open>column.get("heading")\<close> is truthy, then the points at level 1. The source
  has this block twice, for the left and the right column.
\<close>

definition fill_column :: "text_frame \<Rightarrow> json \<Rightarrow> error + text_frame" where
  "fill_column region column_data =
     bind_err (text_frame_clear region) (\<lambda>tf.
     bind_err (py_get column_data ''heading'' JNull) (\<lambda>h.
     bind_err (if truthy h
               then bind_err (py_getitem column_data ''heading'') (\<lambda>heading.
                    bind_err (process_markdown_to_runs add_paragraph heading) (\<lambda>p_heading.
                      Inr (tf @ [p_heading\<lparr>level := 0\<rparr>])))
               else Inr tf) (\<lambda>tf1.
     bind_err (py_get column_data ''points'' (JArr [])) (\<lambda>pts.
     bind_err (py_iter pts) (\<lambda>points.
       add_points tf1 1 points)))))"

definition add_two_column_slide :: "presentation \<Rightarrow> json \<Rightarrow> error + presentation" where
  "add_two_column_slide prs content =
     bind_err (py_index (slide_layouts prs) 3) (\<lambda>slide_layout.
     let sl = add_slide slide_layout
     in bind_err (text_frame_of (shapes_title sl)) (\<lambda>title_tf.
        bind_err (py_index title_tf 0) (\<lambda>p0.
        bind_err (py_get content ''title'' (JStr ''Two Column Title'')) (\<lambda>t.
        bind_err (process_markdown_to_runs p0 t) (\<lambda>p1.
          let title_tf' = apply_font_style (title_tf[0 := p1]) True
          in bind_err (py_get content ''left_column'' (JObj [])) (\<lambda>left_data.
             bind_err (placeholders_get sl 1) (\<lambda>left_region.
             bind_err (fill_column left_region left_data) (\<lambda>left_tf.
             bind_err (py_get content ''right_column'' (JObj [])) (\<lambda>right_data.
             bind_err (placeholders_get sl 2) (\<lambda>right_region.
             bind_err (fill_column right_region right_data) (\<lambda>right_tf.
               let sl' = set_text_frame (set_text_frame (set_text_frame sl 0 title_tf') 1
                           (apply_font_style left_tf False)) 2 (apply_font_style right_tf False)
               in Inr (prs\<lparr>slides := slides prs @ [sl']\<rparr>))))))))))))"

section \<open>The document assembler\<close>

text \<open>
  What a call leaves behind: the document written to the output path, and the lines
  printed. An exception leaves no document.
\<close>

record assembled =
  saved_path :: string
  saved :: presentation
  printed :: "string list"

fun add_slides :: "presentation \<Rightarrow> json list \<Rightarrow> error + presentation" where
  "add_slides prs [] = Inr prs"
| "add_slides prs (slide_info # rest) =
     bind_err (py_get slide_info ''layout'' JNull) (\<lambda>layout_name.
     bind_err (py_get slide_info ''content'' JNull) (\<lambda>content.
     bind_err (if layout_name = JStr ''title_slide'' then add_title_slide prs content
               else if layout_name = JStr ''bullet_points'' then add_bullet_points_slide prs content
               else if layout_name = JStr ''two_column'' then add_two_column_slide prs content
               else Inr prs) (\<lambda>prs'.
       add_slides prs' rest)))"

definition create_presentation ::
  "(string \<Rightarrow> presentation option) \<Rightarrow> json \<Rightarrow> string \<Rightarrow> string \<Rightarrow> error + assembled" where
  "create_presentation fs presentation_data output_path aspect_ratio =
     (let template_path = (if aspect_ratio = ''4:3'' then ''template_4_3.pptx''
                           else ''template_16_9.pptx'')
      in bind_err
           (case Presentation fs (Some template_path) of
              Inr prs \<Rightarrow> Inr (prs, [''Using template: '' @ template_path])
            | Inl FileNotFoundError \<Rightarrow>
                bind_err (Presentation fs None) (\<lambda>prs.
                  Inr (prs, [''WARNING: '' @ [CHR 0x27] @ template_path @ [CHR 0x27]
                             @ '' not found. Using default blank presentation.'']))
            | Inl e \<Rightarrow> Inl e)
           (\<lambda>(prs, out).
         bind_err (py_get presentation_data ''slides'' (JArr [])) (\<lambda>sl.
         bind_err (py_iter sl) (\<lambda>slide_infos.
         bind_err (add_slides prs slide_infos) (\<lambda>prs'.
           Inr \<lparr>saved_path = output_path, saved = prs', printed = out\<rparr>)))))"

section \<open>The content cache\<close>

text \<open>
  The cache is a Python dictionary: an association list in insertion order. Assigning to a
  key that is present keeps its place; a new key goes to the end.
\<close>

fun dict_set :: "('k \<times> 'v) list \<Rightarrow> 'k \<Rightarrow> 'v \<Rightarrow> ('k \<times> 'v) list" where
  "dict_set [] k v = [(k, v)]"
| "dict_set ((k', v') # kvs) k v =
     (if k' = k then (k, v) # kvs else (k', v') # dict_set kvs k v)"

definition dict_del :: "('k \<times> 'v) list \<Rightarrow> 'k \<Rightarrow> ('k \<times> 'v) list" where
  "dict_del kvs k = filter (\<lambda>kv. fst kv \<noteq> k) kvs"

definition lower_char :: "char \<Rightarrow> char" where
  \<comment> \<open>The cased letters below 256: A to Z, and 0xC0 to 0xDE without the sign at 0xD7.\<close>
  "lower_char c =
     (let n = (of_char c :: nat)
      in if (65 \<le> n \<and> n \<le> 90) \<or> (192 \<le> n \<and> n \<le> 222 \<and> n \<noteq> 215)
         then char_of (n + 32) else c)"

definition lower :: "string \<Rightarrow> string" where
  \<comment> \<open>\<open>str.lower()\<close>, which works character by character on these code points.\<close>
  "lower s = map lower_char s"

record llm_service =
  cache :: "((string \<times> int) \<times> json) list"
  max_cache_size :: nat

definition llm_service_init :: llm_service where
  "llm_service_init = \<lparr>cache = [], max_cache_size = 100\<rparr>"

text \<open>
  The producer stands for the lines of the \<open>try\<close> block up to \<open>json.loads\<close>: the call of the
  model with the prompt built from topic and number of slides, the stripping of the code
  fences and the decoding. It either raises, with the message \<open>str(e)\<close>, or yields the
  decoded value. The third component of the result counts its invocations in this call.
\<close>

type_synonym producer = "string \<Rightarrow> int \<Rightarrow> string + json"

definition error_result :: "string \<Rightarrow> json" where
  "error_result details =
     JObj [(''error'', JStr ''Failed to generate or parse content from LLM.''),
           (''details'', JStr details)]"

definition generate_slides_content ::
  "producer \<Rightarrow> llm_service \<Rightarrow> string \<Rightarrow> int \<Rightarrow> json \<times> llm_service \<times> nat" where
  "generate_slides_content p svc topic num_slides =
     (let cache_key = (lower topic, num_slides)
      in case map_of (cache svc) cache_key of
           Some tree \<Rightarrow> (tree, svc, 0)
         | None \<Rightarrow>
             (case p topic num_slides of
                Inl e \<Rightarrow> (error_result e, svc, 1)
              | Inr parsed_json \<Rightarrow>
                  let c1 = dict_set (cache svc) cache_key parsed_json
                  in if length c1 > max_cache_size svc
                     then (case c1 of
                             [] \<Rightarrow> (error_result [], svc\<lparr>cache := c1\<rparr>, 1)
                           | oldest # _ \<Rightarrow>
                               (parsed_json, svc\<lparr>cache := dict_del c1 (fst oldest)\<rparr>, 1))
                     else (parsed_json, svc\<lparr>cache := c1\<rparr>, 1)))"

text \<open>A sequence of requests, each awaited before the next.\<close>

fun serve :: "llm_service \<Rightarrow> (producer \<times> string \<times> int) list \<Rightarrow> llm_service" where
  "serve svc [] = svc"
| "serve svc ((p, topic, num_slides) # reqs) =
     serve (fst (snd (generate_slides_content p svc topic num_slides))) reqs"

section \<open>Notions used in the statements\<close>

text \<open>
  The source text a run stands for: its text between the delimiters of its style.
\<close>

definition markup_of :: "run \<Rightarrow> string" where
  "markup_of r =
     (if font_bold r = Some True then ''**'' @ run_text r @ ''**''
      else if font_underline r = Some True then ''__'' @ run_text r @ ''__''
      else run_text r)"

text \<open>
  Delimiters are read left to right, two characters at a time. \<open>strip_pairs\<close> removes
  them, \<open>delim_count\<close> counts them. \<open>balanced_scan lf opened s\<close> holds when the delimiters
  of \<open>s\<close> pair up without nesting: \<open>opened\<close> is the delimiter of the span the scan is in, if
  any, and \<open>lf\<close> says whether a line feed may occur inside a span.
\<close>

fun strip_pairs :: "string \<Rightarrow> string" where
  "strip_pairs (a # b # cs) =
     (if is_delim [a, b] then strip_pairs cs else a # strip_pairs (b # cs))"
| "strip_pairs cs = cs"

fun delim_count :: "string \<Rightarrow> nat" where
  "delim_count (a # b # cs) =
     (if is_delim [a, b] then Suc (delim_count cs) else delim_count (b # cs))"
| "delim_count cs = 0"

fun balanced_scan :: "bool \<Rightarrow> string option \<Rightarrow> string \<Rightarrow> bool" where
  "balanced_scan lf opened (a # b # cs) =
     (if is_delim [a, b] then
        (case opened of
           None \<Rightarrow> balanced_scan lf (Some [a, b]) cs
         | Some d \<Rightarrow> d = [a, b] \<and> balanced_scan lf None cs)
      else (opened = None \<or> a \<noteq> CHR 0x0A \<or> lf) \<and> balanced_scan lf opened (b # cs))"
| "balanced_scan lf opened cs = (opened = None)"

definition balanced :: "string \<Rightarrow> bool" where
  "balanced s = balanced_scan True None s"

definition balanced_lines :: "string \<Rightarrow> bool" where
  \<comment> \<open>Balanced, and no span runs over a line feed.\<close>
  "balanced_lines s = balanced_scan False None s"

text \<open>Putting the delimiters back around the styled parts of a split.\<close>

fun rewrap :: "string list \<Rightarrow> string" where
  "rewrap (d # c # t # rest) = d @ c @ d @ t @ rewrap rest"
| "rewrap ps = []"

fun delims_ok :: "string list \<Rightarrow> bool" where
  "delims_ok (d # c # t # rest) = (is_delim d \<and> delims_ok rest)"
| "delims_ok ps = True"

text \<open>The texts of the triples of a split, without the delimiters.\<close>

fun plain_parts :: "string list \<Rightarrow> string" where
  "plain_parts (d # c # t # rest) = c @ t @ plain_parts rest"
| "plain_parts ps = []"

text \<open>
  A request is a producer with its topic and number of slides. \<open>cache_inv\<close> is the
  invariant of the cache: distinct keys, and no more entries than the bound.
  \<open>sample_requests\<close> are 101 requests with distinct keys whose producer succeeds.
\<close>

definition request_key :: "producer \<times> string \<times> int \<Rightarrow> string \<times> int" where
  "request_key req = (case req of (p, topic, num_slides) \<Rightarrow> (lower topic, num_slides))"

definition succeeds :: "producer \<times> string \<times> int \<Rightarrow> bool" where
  "succeeds req = (case req of (p, topic, num_slides) \<Rightarrow>
                     (case p topic num_slides of Inl e \<Rightarrow> False | Inr v \<Rightarrow> True))"

definition sample_requests :: "(producer \<times> string \<times> int) list" where
  "sample_requests =
     map (\<lambda>ab. (\<lambda>topic num_slides. Inr (JObj [(''slides'', JArr [])]), [fst ab, snd ab, CHR ''x''], 5))
       (take 101 (List.product ''ABCDEFGHIJK'' ''abcdefghijk''))"

definition cache_inv :: "llm_service \<Rightarrow> bool" where
  "cache_inv svc = (distinct (map fst (cache svc)) \<and> length (cache svc) \<le> max_cache_size svc)"

text \<open>
  The shape of a content tree. A text is a string; a key that is optional may be absent.
  The content of a \<open>title_slide\<close> has optional texts \<open>title\<close> and \<open>subtitle\<close>, that of
  \<open>bullet_points\<close> an optional text \<open>title\<close> and an optional list of texts \<open>points\<close>, that
  of \<open>two_column\<close> an optional text \<open>title\<close> and optional columns \<open>left_column\<close> and
  \<open>right_column\<close>, each a dictionary with an optional text \<open>heading\<close> and an optional list
  of texts \<open>points\<close>. A slide record is a dictionary; when its \<open>layout\<close> is one of the three
  kinds its \<open>content\<close> has the shape of that kind, and otherwise nothing is asked of it. A
  content tree is a dictionary whose \<open>slides\<close>, when present, is a list of slide records.
\<close>

definition is_text :: "json \<Rightarrow> bool" where
  "is_text v = (case v of JStr s \<Rightarrow> True | _ \<Rightarrow> False)"

definition text_of :: "json \<Rightarrow> string" where
  "text_of v = (case v of JStr s \<Rightarrow> s | _ \<Rightarrow> [])"

definition lookup :: "(string \<times> json) list \<Rightarrow> string \<Rightarrow> json \<Rightarrow> json" where
  "lookup kvs k dflt = (case map_of kvs k of None \<Rightarrow> dflt | Some v \<Rightarrow> v)"

definition text_or_absent :: "(string \<times> json) list \<Rightarrow> string \<Rightarrow> bool" where
  "text_or_absent kvs k = (case map_of kvs k of None \<Rightarrow> True | Some v \<Rightarrow> is_text v)"

definition points_of :: "(string \<times> json) list \<Rightarrow> json list" where
  "points_of kvs = (case map_of kvs ''points'' of Some (JArr xs) \<Rightarrow> xs | _ \<Rightarrow> [])"

definition points_ok :: "(string \<times> json) list \<Rightarrow> bool" where
  "points_ok kvs =
     (case map_of kvs ''points'' of
        None \<Rightarrow> True
      | Some (JArr xs) \<Rightarrow> list_all is_text xs
      | Some _ \<Rightarrow> False)"

definition column_of :: "(string \<times> json) list \<Rightarrow> string \<Rightarrow> (string \<times> json) list" where
  "column_of kvs k = (case map_of kvs k of Some (JObj c) \<Rightarrow> c | _ \<Rightarrow> [])"

definition column_ok :: "(string \<times> json) list \<Rightarrow> string \<Rightarrow> bool" where
  "column_ok kvs k =
     (case map_of kvs k of
        None \<Rightarrow> True
      | Some (JObj c) \<Rightarrow> text_or_absent c ''heading'' \<and> points_ok c
      | Some _ \<Rightarrow> False)"

definition content_ok :: "json \<Rightarrow> json \<Rightarrow> bool" where
  "content_ok tag content =
     (if tag = JStr ''title_slide'' then
        (case content of
           JObj kvs \<Rightarrow> text_or_absent kvs ''title'' \<and> text_or_absent kvs ''subtitle''
         | _ \<Rightarrow> False)
      else if tag = JStr ''bullet_points'' then
        (case content of
           JObj kvs \<Rightarrow> text_or_absent kvs ''title'' \<and> points_ok kvs
         | _ \<Rightarrow> False)
      else if tag = JStr ''two_column'' then
        (case content of
           JObj kvs \<Rightarrow> text_or_absent kvs ''title'' \<and> column_ok kvs ''left_column''
                         \<and> column_ok kvs ''right_column''
         | _ \<Rightarrow> False)
      else True)"

definition slide_record_ok :: "json \<Rightarrow> bool" where
  "slide_record_ok r =
     (case r of
        JObj kvs \<Rightarrow> content_ok (lookup kvs ''layout'' JNull) (lookup kvs ''content'' JNull)
      | _ \<Rightarrow> False)"

definition records :: "json \<Rightarrow> json list" where
  "records tree =
     (case tree of
        JObj kvs \<Rightarrow> (case map_of kvs ''slides'' of Some (JArr rs) \<Rightarrow> rs | _ \<Rightarrow> [])
      | _ \<Rightarrow> [])"

definition content_tree :: "json \<Rightarrow> bool" where
  "content_tree tree =
     (case tree of
        JObj kvs \<Rightarrow>
          (case map_of kvs ''slides'' of
             None \<Rightarrow> True
           | Some (JArr rs) \<Rightarrow> list_all slide_record_ok rs
           | Some _ \<Rightarrow> False)
      | _ \<Rightarrow> False)"

definition record_layout :: "json \<Rightarrow> json" where
  "record_layout r = (case r of JObj kvs \<Rightarrow> lookup kvs ''layout'' JNull | _ \<Rightarrow> JNull)"

definition known_layout :: "json \<Rightarrow> bool" where
  "known_layout r =
     (record_layout r = JStr ''title_slide'' \<or> record_layout r = JStr ''bullet_points''
      \<or> record_layout r = JStr ''two_column'')"

definition layout_index :: "json \<Rightarrow> nat" where
  "layout_index r =
     (if record_layout r = JStr ''title_slide'' then 0
      else if record_layout r = JStr ''bullet_points'' then 1
      else 3)"

text \<open>
  What the renderers ask of a template: the layouts 0, 1 and 3 exist, the first two with
  the placeholders 0 and 1, the last with the placeholders 0, 1 and 2.
\<close>

definition has_placeholders :: "presentation \<Rightarrow> nat \<Rightarrow> nat list \<Rightarrow> bool" where
  "has_placeholders prs i idxs =
     (i < length (slide_layouts prs) \<and>
      list_all (\<lambda>idx. idx \<in> set (layout_placeholders (slide_layouts prs ! i))) idxs)"

definition template_ok :: "presentation \<Rightarrow> bool" where
  "template_ok prs =
     (has_placeholders prs 0 [0, 1] \<and> has_placeholders prs 1 [0, 1]
      \<and> has_placeholders prs 3 [0, 1, 2])"

definition template_path :: "string \<Rightarrow> string" where
  "template_path aspect_ratio =
     (if aspect_ratio = ''4:3'' then ''template_4_3.pptx'' else ''template_16_9.pptx'')"

text \<open>
  The paragraphs a renderer is expected to produce: the paragraph of a text at a level, the
  heading of a column (none unless the heading is truthy), the styled title, a styled
  column. \<open>outline\<close> lists level and text of the paragraphs of a text frame, and \<open>region\<close>
  is the text frame of a placeholder of the last slide of a result.
\<close>

definition para_of :: "nat \<Rightarrow> json \<Rightarrow> text_paragraph" where
  "para_of lvl v = \<lparr>runs = spans (text_of v), level = lvl\<rparr>"

definition heading_paragraphs :: "(string \<times> json) list \<Rightarrow> text_frame" where
  "heading_paragraphs c =
     (if truthy (lookup c ''heading'' JNull) then [para_of 0 (lookup c ''heading'' JNull)] else [])"

definition title_frame :: "string \<Rightarrow> (string \<times> json) list \<Rightarrow> text_frame" where
  "title_frame dflt kvs = apply_font_style [para_of 0 (lookup kvs ''title'' (JStr dflt))] True"

definition column_frame :: "(string \<times> json) list \<Rightarrow> text_frame" where
  "column_frame c =
     apply_font_style (add_paragraph # heading_paragraphs c @ map (para_of 1) (points_of c)) False"

definition paragraph_text :: "text_paragraph \<Rightarrow> string" where
  "paragraph_text p = concat (map run_text (runs p))"

definition outline :: "text_frame \<Rightarrow> (nat \<times> string) list" where
  "outline tf = map (\<lambda>p. (level p, paragraph_text p)) tf"

definition region :: "error + presentation \<Rightarrow> nat \<Rightarrow> text_frame" where
  "region res idx =
     (case res of
        Inl e \<Rightarrow> []
      | Inr prs \<Rightarrow>
          (if slides prs = [] then []
           else (case placeholders_get (last (slides prs)) idx of Inl e \<Rightarrow> [] | Inr tf \<Rightarrow> tf)))"

text \<open>
  The slide each renderer is expected to append for a content dictionary, made from a
  layout, and the slide expected for a record of a known layout: the title, bullet and
  two-column slides are made from the layouts 0, 1 and 3. \<open>slide_titles\<close> lists the title
  texts of slides.
\<close>

definition title_slide_of :: "slide_layout \<Rightarrow> (string \<times> json) list \<Rightarrow> slide" where
  "title_slide_of l c =
     set_text_frame (set_text_frame (add_slide l) 0 (title_frame ''Presentation Title'' c)) 1
       (apply_font_style [para_of 0 (lookup c ''subtitle'' (JStr []))] False)"

definition bullet_points_slide_of :: "slide_layout \<Rightarrow> (string \<times> json) list \<Rightarrow> slide" where
  "bullet_points_slide_of l c =
     set_text_frame (set_text_frame (add_slide l) 0 (title_frame ''Slide Title'' c)) 1
       (apply_font_style (add_paragraph # map (para_of 0) (points_of c)) False)"

definition two_column_slide_of :: "slide_layout \<Rightarrow> (string \<times> json) list \<Rightarrow> slide" where
  "two_column_slide_of l c =
     set_text_frame
       (set_text_frame (set_text_frame (add_slide l) 0 (title_frame ''Two Column Title'' c)) 1
          (column_frame (column_of c ''left_column'')))
       2 (column_frame (column_of c ''right_column''))"

definition record_content :: "json \<Rightarrow> (string \<times> json) list" where
  "record_content r =
     (case r of
        JObj kvs \<Rightarrow> (case lookup kvs ''content'' JNull of JObj c \<Rightarrow> c | _ \<Rightarrow> [])
      | _ \<Rightarrow> [])"

definition rendered_slide :: "slide_layout list \<Rightarrow> json \<Rightarrow> slide" where
  "rendered_slide layouts r =
     (if record_layout r = JStr ''title_slide''
      then title_slide_of (layouts ! 0) (record_content r)
      else if record_layout r = JStr ''bullet_points''
      then bullet_points_slide_of (layouts ! 1) (record_content r)
      else two_column_slide_of (layouts ! 3) (record_content r))"

definition slide_titles :: "slide list \<Rightarrow> string list" where
  "slide_titles sls =
     map (\<lambda>sl. case placeholders_get sl 0 of
                  Inl e \<Rightarrow> []
                | Inr tf \<Rightarrow> concat (map paragraph_text tf)) sls"

text \<open>The content trees, files and producers of the examples.\<close>

definition two_column_example :: json where
  "two_column_example =
     JObj [(''left_column'',
            JObj [(''heading'', JStr ''H''), (''points'', JArr [JStr ''p1'', JStr ''p2''])])]"

definition empty_heading_example :: json where
  "empty_heading_example = JObj [(''left_column'', JObj [(''heading'', JStr [])])]"

definition skip_example :: json where
  "skip_example =
     JObj [(''slides'',
            JArr [JObj [(''layout'', JStr ''bogus'')],
                  JObj [(''layout'', JStr ''title_slide''),
                        (''content'', JObj [(''title'', JStr ''T'')])]])]"

definition order_example :: json where
  "order_example =
     JObj [(''slides'',
            JArr [JObj [(''layout'', JStr ''bullet_points''), (''content'', JObj [(''title'', JStr ''A'')])],
                  JObj [(''layout'', JStr ''bogus''), (''content'', JObj [(''title'', JStr ''X'')])],
                  JObj [(''layout'', JStr ''bullet_points''), (''content'', JObj [(''title'', JStr ''B'')])]])]"

definition no_content_example :: json where
  "no_content_example = JObj [(''slides'', JArr [JObj [(''layout'', JStr ''title_slide'')]])]"

definition number_title_example :: json where
  "number_title_example =
     JObj [(''slides'',
            JArr [JObj [(''layout'', JStr ''title_slide''), (''content'', JObj [(''title'', JInt 5)])]])]"

definition default_files :: "string \<Rightarrow> presentation option" where
  \<comment> \<open>Both templates are present, with the layouts of the library's own template.\<close>
  "default_files path = Some default_presentation"

definition error_producer :: producer where
  \<comment> \<open>A producer whose decoded value is itself an error indicator.\<close>
  "error_producer topic num_slides = Inr (error_result ''quota'')"

definition bullet_example :: json where
  "bullet_example =
     JObj [(''slides'', JArr [JObj [(''layout'', JStr ''bullet_points''), (''content'', JObj [])]])]"

section \<open>Properties of the markup parser\<close>

lemma re_split_nonempty: "re_split s \<noteq> []"
  by (induction s rule: re_split.induct) (auto simp: cons_first_def split: option.splits list.splits)

lemma re_split_length: "length (re_split s) mod 3 = 1"
proof (induction s rule: re_split.induct)
  case 1
  then show ?case by simp
next
  case (2 c cs)
  show ?case
  proof (cases "match_at (c # cs)")
    case None
    with 2 re_split_nonempty[of cs] show ?thesis
      by (auto simp: cons_first_def split: list.splits)
  next
    case (Some m)
    obtain d inner rest where m: "m = (d, inner, rest)" by (cases m) auto
    with 2 Some have "length (re_split rest) mod 3 = 1" by simp
    with Some m show ?thesis by (simp add: mod_Suc)
  qed
qed

lemma md_loop_triples:
  "length xs mod 3 = 0 \<Longrightarrow> md_loop (pre @ xs) (length pre) rs = Inr (rs @ triple_runs xs)"
proof (induction xs arbitrary: pre rs rule: triple_runs.induct)
  case (1 d c t rest)
  from 1(2) have r: "length rest mod 3 = 0" by (simp add: mod_Suc split: if_splits)
  have "md_loop ((pre @ [d, c, t]) @ rest) (length (pre @ [d, c, t])) (rs @ [styled_run d c, set_text add_run t])
        = Inr ((rs @ [styled_run d c, set_text add_run t]) @ triple_runs rest)"
    using 1(1)[OF r] by blast
  then show ?case
    by (subst md_loop.simps) (simp add: bind_err_def py_index_def nth_append Let_def eval_nat_numeral)
qed (simp_all add: md_loop.simps)

lemma process_markdown_to_runs_spans:
  "process_markdown_to_runs p (JStr s) = Inr (p\<lparr>runs := spans s\<rparr>)"
proof -
  obtain p0 rest where ps: "re_split s = p0 # rest"
    using re_split_nonempty[of s] by (cases "re_split s") auto
  with re_split_length[of s] have "length rest mod 3 = 0"
    by (simp add: mod_Suc split: if_splits)
  then have "md_loop ([p0] @ rest) (length [p0]) [set_text add_run p0]
             = Inr ([set_text add_run p0] @ triple_runs rest)"
    by (rule md_loop_triples)
  with ps show ?thesis
    by (simp add: process_markdown_to_runs_def as_text_def spans_def bind_err_def py_index_def)
qed

lemma is_delim_length: "is_delim d \<Longrightarrow> length d = 2"
  by (auto simp: is_delim_def)

lemma find_close_append:
  "length d = 2 \<Longrightarrow> find_close d s = Some (inner, rest) \<Longrightarrow> s = inner @ d @ rest"
proof (induction s arbitrary: inner)
  case Nil
  then show ?case by simp
next
  case (Cons c cs)
  show ?case
  proof (cases "take 2 (c # cs) = d")
    case True
    with Cons.prems have "inner = []" "rest = drop 2 (c # cs)" by auto
    with True show ?thesis
      by (metis append_Nil append_take_drop_id)
  next
    case False
    with Cons.prems obtain inner' where
      "find_close d cs = Some (inner', rest)" "inner = c # inner'"
      by (auto split: if_splits option.splits)
    with Cons.IH[OF Cons.prems(1)] show ?thesis by simp
  qed
qed

lemma match_at_append:
  assumes "match_at s = Some (d, inner, rest)"
  shows "is_delim d \<and> s = d @ inner @ d @ rest"
proof -
  from assms have d: "is_delim (take 2 s)" "d = take 2 s"
    and f: "find_close (take 2 s) (drop 2 s) = Some (inner, rest)"
    by (auto simp: match_at_def split: if_splits option.splits)
  from d(1) have "length (take 2 s) = 2" by (rule is_delim_length)
  from find_close_append[OF this f] have "drop 2 s = inner @ take 2 s @ rest" .
  then have "s = take 2 s @ inner @ take 2 s @ rest"
    by (metis append_take_drop_id)
  with d show ?thesis by simp
qed

lemma re_split_rewrap:
  "\<exists>p rest. re_split s = p # rest \<and> p @ rewrap rest = s \<and> delims_ok rest"
proof (induction s rule: re_split.induct)
  case 1
  then show ?case by simp
next
  case (2 c cs)
  show ?case
  proof (cases "match_at (c # cs)")
    case None
    with 2 show ?thesis by (auto simp: cons_first_def)
  next
    case (Some m)
    obtain d inner rest where m: "m = (d, inner, rest)" by (cases m) auto
    from 2(2)[OF Some[unfolded m] refl refl] obtain p ps where
      ih: "re_split rest = p # ps" "p @ rewrap ps = rest" "delims_ok ps" by blast
    from Some m ih(1) have rs: "re_split (c # cs) = [] # d # inner # p # ps" by simp
    from match_at_append[OF Some[unfolded m]]
    have d: "is_delim d" and s: "c # cs = d @ inner @ d @ rest" by simp_all
    have "[] @ rewrap (d # inner # p # ps) = c # cs"
      unfolding s using ih(2) by simp
    moreover from d ih(3) have "delims_ok (d # inner # p # ps)" by simp
    ultimately show ?thesis unfolding rs by blast
  qed
qed

lemma escape_text_append: "escape_text (a @ b) = escape_text a @ escape_text b"
  by (simp add: escape_text_def)

lemma escape_text_delim: "is_delim d \<Longrightarrow> escape_text d = d"
  by (auto simp: is_delim_def escape_text_def escape_char_def is_control_def)

lemma escape_text_plain: "\<not> list_ex is_control s \<Longrightarrow> escape_text s = s"
  by (induction s) (simp_all add: escape_text_def escape_char_def)

lemma strip_pairs_plain: "\<not> list_ex is_control s \<Longrightarrow> \<not> list_ex is_control (strip_pairs s)"
  by (induction s rule: strip_pairs.induct) auto

lemma markup_styled_run:
  "is_delim d \<Longrightarrow> markup_of (styled_run d c) = d @ escape_text c @ d"
  by (auto simp: markup_of_def styled_run_def set_text_def add_run_def is_delim_def)

lemma markup_plain_run: "markup_of (set_text add_run t) = escape_text t"
  by (simp add: markup_of_def set_text_def add_run_def)

lemma markup_triple_runs:
  "delims_ok ps \<Longrightarrow> concat (map markup_of (triple_runs ps)) = escape_text (rewrap ps)"
  by (induction ps rule: triple_runs.induct)
     (simp_all add: markup_styled_run markup_plain_run escape_text_append escape_text_delim
        escape_text_def[of "[]"])

lemma markup_spans: "concat (map markup_of (spans s)) = escape_text s"
proof -
  obtain p rest where "re_split s = p # rest" "p @ rewrap rest = s" "delims_ok rest"
    using re_split_rewrap by blast
  then show ?thesis
    using escape_text_append[of p "rewrap rest"]
    by (simp add: spans_def markup_triple_runs markup_plain_run)
qed

lemma run_text_triple_runs:
  "concat (map run_text (triple_runs ps)) = escape_text (plain_parts ps)"
  by (induction ps rule: triple_runs.induct)
     (simp_all add: styled_run_def set_text_def add_run_def Let_def escape_text_append
        escape_text_def[of "[]"])

lemma find_close_balanced:
  "is_delim d \<Longrightarrow> balanced_scan False (Some d) s \<Longrightarrow>
   \<exists>inner rest. find_close d s = Some (inner, rest) \<and>
     strip_pairs s = inner @ strip_pairs rest \<and>
     delim_count s = Suc (delim_count rest) \<and>
     balanced_scan False None rest"
proof (induction s rule: strip_pairs.induct)
  case (1 a b cs)
  show ?case
  proof (cases "is_delim [a, b]")
    case True
    with 1(4) have "d = [a, b]" "balanced_scan False None cs" by simp_all
    with True show ?thesis by simp
  next
    case False
    with 1(4) have a: "a \<noteq> CHR 0x0A" and b: "balanced_scan False (Some d) (b # cs)"
      by simp_all
    from 1(2)[OF False 1(3) b] obtain inner rest where
      ih: "find_close d (b # cs) = Some (inner, rest)"
          "strip_pairs (b # cs) = inner @ strip_pairs rest"
          "delim_count (b # cs) = Suc (delim_count rest)"
          "balanced_scan False None rest"
      by blast
    from False 1(3) have "[a, b] \<noteq> d" by auto
    with a ih(1) have "find_close d (a # b # cs) = Some (a # inner, rest)" by simp
    with False ih show ?thesis by simp
  qed
qed simp_all

lemma re_split_balanced:
  "balanced_scan False None s \<Longrightarrow>
   \<exists>p rest. re_split s = p # rest \<and>
     p @ plain_parts rest = strip_pairs s \<and>
     length (triple_runs rest) = delim_count s"
proof (induction s rule: re_split.induct)
  case 1
  then show ?case by simp
next
  case (2 c cs)
  show ?case
  proof (cases "is_delim (take 2 (c # cs))")
    case False
    then have m: "match_at (c # cs) = None" by (simp add: match_at_def)
    from False 2(3) have b: "balanced_scan False None cs"
      by (cases cs) simp_all
    from False have sp: "strip_pairs (c # cs) = c # strip_pairs cs"
      and dc: "delim_count (c # cs) = delim_count cs"
      by (cases cs; simp)+
    from 2(1)[OF m b] obtain p rest where
      "re_split cs = p # rest"
      "p @ plain_parts rest = strip_pairs cs"
      "length (triple_runs rest) = delim_count cs"
      by blast
    with m sp dc show ?thesis by (simp add: cons_first_def)
  next
    case True
    then obtain b cs' where cs: "cs = b # cs'" and d: "is_delim [c, b]"
      by (cases cs) (auto simp: is_delim_def)
    from 2(3) cs d have "balanced_scan False (Some [c, b]) cs'" by simp
    from find_close_balanced[OF d this] obtain inner rest where
      f: "find_close [c, b] cs' = Some (inner, rest)"
         "strip_pairs cs' = inner @ strip_pairs rest"
         "delim_count cs' = Suc (delim_count rest)"
         "balanced_scan False None rest"
      by blast
    from cs d f(1) have m: "match_at (c # cs) = Some ([c, b], inner, rest)"
      by (simp add: match_at_def)
    from 2(2)[OF m refl refl f(4)] obtain p ps where
      ih: "re_split rest = p # ps"
          "p @ plain_parts ps = strip_pairs rest"
          "length (triple_runs ps) = delim_count rest"
      by blast
    from m ih(1) have rs: "re_split (c # cs) = [] # [c, b] # inner # p # ps" by simp
    have "[] @ plain_parts ([c, b] # inner # p # ps) = strip_pairs (c # cs)"
      using cs d f(2) ih(2) by simp
    moreover have "length (triple_runs ([c, b] # inner # p # ps)) = delim_count (c # cs)"
      using cs d f(3) ih(3) by simp
    ultimately show ?thesis unfolding rs by blast
  qed
qed

lemma spans_balanced:
  assumes "balanced_scan False None s"
  shows "concat (map run_text (spans s)) = escape_text (strip_pairs s) \<and>
         length (spans s) = Suc (delim_count s)"
proof -
  from re_split_balanced[OF assms] obtain p rest where
    "re_split s = p # rest"
    "p @ plain_parts rest = strip_pairs s"
    "length (triple_runs rest) = delim_count s"
    by blast
  then show ?thesis
    using escape_text_append[of p "plain_parts rest"]
    by (simp add: spans_def set_text_def add_run_def run_text_triple_runs)
qed

lemma set_text_plain: "\<not> list_ex is_control t \<Longrightarrow> set_text add_run t = add_run\<lparr>run_text := t\<rparr>"
  by (simp add: set_text_def escape_text_plain)

text \<open>
  C10, as amended. The markup parser is total on every input string. The split always has
  a length of 1 modulo 3, so no index access of the loop is out of range and the call
  returns its runs, never an exception. Nothing of the input is lost: putting the
  delimiters back around the styled runs gives the input again with its control characters
  (other than tab and line feed) in their escaped form, so a delimiter without a matching
  closer stays literally in the text of a plain run, and an input without such control
  characters is given back unchanged. The input \<open>**\<close> yields one plain run with text \<open>**\<close>.
\<close>

theorem markup_parser_total:
  "length (re_split s) mod 3 = 1 \<and>
   (\<exists>rs. process_markdown_to_runs p (JStr s) = Inr (p\<lparr>runs := rs\<rparr>) \<and>
         concat (map markup_of rs) = escape_text s \<and>
         (\<not> list_ex is_control s \<longrightarrow> concat (map markup_of rs) = s)) \<and>
   process_markdown_to_runs p (JStr ''**'') = Inr (p\<lparr>runs := [add_run\<lparr>run_text := ''**''\<rparr>]\<rparr>)"
proof -
  have "spans ''**'' = [add_run\<lparr>run_text := ''**''\<rparr>]"
    by (simp add: spans_def match_at_def is_delim_def cons_first_def set_text_plain is_control_def)
  with process_markdown_to_runs_spans[of p "''**''"]
  have stray: "process_markdown_to_runs p (JStr ''**'') =
               Inr (p\<lparr>runs := [add_run\<lparr>run_text := ''**''\<rparr>]\<rparr>)"
    by simp
  have "process_markdown_to_runs p (JStr s) = Inr (p\<lparr>runs := spans s\<rparr>) \<and>
        concat (map markup_of (spans s)) = escape_text s \<and>
        (\<not> list_ex is_control s \<longrightarrow> concat (map markup_of (spans s)) = s)"
    by (simp add: process_markdown_to_runs_spans markup_spans escape_text_plain)
  then have "\<exists>rs. process_markdown_to_runs p (JStr s) = Inr (p\<lparr>runs := rs\<rparr>) \<and>
                  concat (map markup_of rs) = escape_text s \<and>
                  (\<not> list_ex is_control s \<longrightarrow> concat (map markup_of rs) = s)"
    by blast
  with stray re_split_length[of s] show ?thesis by blast
qed

theorem markup_parser_total_witness:
  "\<not> list_ex is_control ''a **b** c ** d'' \<and>
   length (re_split ''a **b** c ** d'') mod 3 = 1 \<and>
   (\<exists>rs. process_markdown_to_runs add_paragraph (JStr ''a **b** c ** d'')
           = Inr (add_paragraph\<lparr>runs := rs\<rparr>) \<and>
         concat (map markup_of rs) = ''a **b** c ** d'')"
proof -
  have c: "\<not> list_ex is_control ''a **b** c ** d''"
    by (simp add: is_control_def)
  from markup_parser_total[of "''a **b** c ** d''" add_paragraph] c
  show ?thesis by blast
qed

text \<open>
  The claim that the input is emitted unchanged fails where the input has a control
  character: for \<open>**\<close> followed by a carriage return the text of the run is
  \<open>**_x000D_\<close>, so the stray delimiter is kept but the input is not.
\<close>

theorem markup_parser_unchanged_counterexample:
  "process_markdown_to_runs add_paragraph (JStr (''**'' @ [CHR 0x0D])) =
     Inr (add_paragraph\<lparr>runs := [add_run\<lparr>run_text := ''**_x000D_''\<rparr>]\<rparr>) \<and>
   ''**_x000D_'' \<noteq> ''**'' @ [CHR 0x0D]"
proof -
  have "spans (''**'' @ [CHR 0x0D]) = [add_run\<lparr>run_text := ''**_x000D_''\<rparr>]"
    by (simp add: spans_def match_at_def is_delim_def cons_first_def set_text_def
          escape_text_def escape_char_def is_control_def hex_digit_def)
  with process_markdown_to_runs_spans[of add_paragraph "''**'' @ [CHR 0x0D]"]
  show ?thesis by simp
qed

text \<open>
  C1, as amended. For every delimiter-balanced input in which no styled span runs over a
  line feed, the parser returns runs whose texts, concatenated in order, are the input with
  all delimiters removed and its control characters (other than tab and line feed) in
  their escaped form; for an input without such control characters that is exactly the
  input with all delimiters removed. Every plain segment, also an empty one, is a run of
  its own, so there is one run more than there are delimiters.
\<close>

theorem span_concatenation_identity:
  assumes "balanced_lines s"
  shows "\<exists>rs. process_markdown_to_runs p (JStr s) = Inr (p\<lparr>runs := rs\<rparr>) \<and>
              concat (map run_text rs) = escape_text (strip_pairs s) \<and>
              (\<not> list_ex is_control s \<longrightarrow> concat (map run_text rs) = strip_pairs s) \<and>
              length rs = Suc (delim_count s)"
proof -
  from assms have "balanced_scan False None s" by (simp add: balanced_lines_def)
  from spans_balanced[OF this] process_markdown_to_runs_spans[of p s]
  have "process_markdown_to_runs p (JStr s) = Inr (p\<lparr>runs := spans s\<rparr>) \<and>
        concat (map run_text (spans s)) = escape_text (strip_pairs s) \<and>
        (\<not> list_ex is_control s \<longrightarrow> concat (map run_text (spans s)) = strip_pairs s) \<and>
        length (spans s) = Suc (delim_count s)"
    by (simp add: escape_text_plain strip_pairs_plain)
  then show ?thesis by blast
qed

theorem span_concatenation_identity_witness:
  "balanced_lines ''**a**__b__'' \<and> \<not> list_ex is_control ''**a**__b__'' \<and>
   (\<exists>rs. process_markdown_to_runs add_paragraph (JStr ''**a**__b__'') = Inr (add_paragraph\<lparr>runs := rs\<rparr>) \<and>
         concat (map run_text rs) = ''ab'' \<and> length rs = 5)"
proof -
  have b: "balanced_lines ''**a**__b__''"
    by (simp add: balanced_lines_def is_delim_def)
  have c: "\<not> list_ex is_control ''**a**__b__''"
    by (simp add: is_control_def)
  have "strip_pairs ''**a**__b__'' = ''ab''" "delim_count ''**a**__b__'' = 4"
    by (simp_all add: is_delim_def)
  with span_concatenation_identity[OF b, of add_paragraph] b c show ?thesis by auto
qed

text \<open>
  The claim as stated fails in two ways. The pattern's \<open>.\<close> does not match a line feed, so
  a balanced bold span that contains one is not recognised and its delimiters stay in the
  text. And a carriage return inside a recognised span is stored in its escaped form, so
  the texts of the runs are not the input without its delimiters.
\<close>

theorem span_concatenation_counterexample:
  "balanced (''**a'' @ [CHR 0x0A] @ ''b**'') \<and>
   strip_pairs (''**a'' @ [CHR 0x0A] @ ''b**'') = ''a'' @ [CHR 0x0A] @ ''b'' \<and>
   process_markdown_to_runs add_paragraph (JStr (''**a'' @ [CHR 0x0A] @ ''b**'')) =
     Inr (add_paragraph\<lparr>runs := [add_run\<lparr>run_text := ''**a'' @ [CHR 0x0A] @ ''b**''\<rparr>]\<rparr>) \<and>
   concat (map run_text [add_run\<lparr>run_text := ''**a'' @ [CHR 0x0A] @ ''b**''\<rparr>])
     \<noteq> strip_pairs (''**a'' @ [CHR 0x0A] @ ''b**'') \<and>
   balanced (''**a'' @ [CHR 0x0D] @ ''b**'') \<and>
   strip_pairs (''**a'' @ [CHR 0x0D] @ ''b**'') = ''a'' @ [CHR 0x0D] @ ''b'' \<and>
   process_markdown_to_runs add_paragraph (JStr (''**a'' @ [CHR 0x0D] @ ''b**'')) =
     Inr (add_paragraph\<lparr>runs := [add_run, add_run\<lparr>run_text := ''a_x000D_b'', font_bold := Some True\<rparr>,
                                 add_run]\<rparr>) \<and>
   concat (map run_text [add_run, add_run\<lparr>run_text := ''a_x000D_b'', font_bold := Some True\<rparr>, add_run])
     \<noteq> strip_pairs (''**a'' @ [CHR 0x0D] @ ''b**'')"
proof -
  have "spans (''**a'' @ [CHR 0x0A] @ ''b**'') = [add_run\<lparr>run_text := ''**a'' @ [CHR 0x0A] @ ''b**''\<rparr>]"
    by (simp add: spans_def match_at_def is_delim_def cons_first_def set_text_def
          escape_text_def escape_char_def is_control_def)
  moreover
  have "spans (''**a'' @ [CHR 0x0D] @ ''b**'')
        = [add_run, add_run\<lparr>run_text := ''a_x000D_b'', font_bold := Some True\<rparr>, add_run]"
    by (simp add: spans_def match_at_def is_delim_def cons_first_def set_text_def styled_run_def
          escape_text_def escape_char_def is_control_def hex_digit_def add_run_def)
  ultimately show ?thesis
    using process_markdown_to_runs_spans[of add_paragraph "''**a'' @ [CHR 0x0A] @ ''b**''"]
      process_markdown_to_runs_spans[of add_paragraph "''**a'' @ [CHR 0x0D] @ ''b**''"]
    by (simp add: balanced_def is_delim_def add_run_def)
qed

section \<open>Properties of the style resolver\<close>

text \<open>
  C7. For every run and role the style resolver leaves the font family as it is when the
  run is bold and sets it to the constant of the role when the run is not bold, an
  underlined run included; for a run whose family is still the template's default, as the
  parser's runs are, the family stays the default exactly when the run is bold. Size and
  colour are always set to the constants of the role, and text, bold and underline are
  not touched. The resolver does this for every run of every paragraph of a text frame.
\<close>

theorem style_resolver:
  "font_name (apply_font_style_run is_title r) =
     (if font_bold r = Some True then font_name r
      else Some (if is_title then TITLE_FONT_NAME else BODY_FONT_NAME)) \<and>
   font_size (apply_font_style_run is_title r) =
     Some (if is_title then TITLE_FONT_SIZE else BODY_FONT_SIZE) \<and>
   font_color (apply_font_style_run is_title r) =
     Some (if is_title then TITLE_COLOR else BODY_COLOR) \<and>
   run_text (apply_font_style_run is_title r) = run_text r \<and>
   font_bold (apply_font_style_run is_title r) = font_bold r \<and>
   font_underline (apply_font_style_run is_title r) = font_underline r \<and>
   (font_name r = None \<longrightarrow>
      (font_name (apply_font_style_run is_title r) = None) = (font_bold r = Some True)) \<and>
   apply_font_style tf is_title =
     map (\<lambda>p. p\<lparr>runs := map (apply_font_style_run is_title) (runs p)\<rparr>) tf"
  by (simp add: apply_font_style_run_def apply_font_style_def Let_def)

theorem style_resolver_witness:
  "font_name (styled_run ''__'' ''u'') = None \<and>
   font_name (apply_font_style_run True (styled_run ''__'' ''u'')) = Some ''Calibri Light'' \<and>
   font_name (apply_font_style_run False (styled_run ''**'' ''b'')) = None \<and>
   font_size (apply_font_style_run False (styled_run ''**'' ''b'')) = Some 228600"
  using style_resolver[of True "styled_run ''__'' ''u''" "[]"]
        style_resolver[of False "styled_run ''**'' ''b''" "[]"]
  by (simp add: styled_run_def set_text_def add_run_def TITLE_FONT_NAME_def BODY_FONT_SIZE_def
        Pt_def)

section \<open>Properties of the content cache\<close>

lemma dict_set_new: "k \<notin> fst ` set kvs \<Longrightarrow> dict_set kvs k v = kvs @ [(k, v)]"
  by (induction kvs) auto

lemma dict_del_hd: "distinct (map fst (x # xs)) \<Longrightarrow> dict_del (x # xs) (fst x) = xs"
proof -
  assume "distinct (map fst (x # xs))"
  then have "fst x \<notin> fst ` set xs" by simp
  then have "\<forall>kv\<in>set xs. fst kv \<noteq> fst x" by (metis imageI)
  then have "filter (\<lambda>kv. fst kv \<noteq> fst x) xs = xs" by (simp add: filter_id_conv)
  then show ?thesis by (simp add: dict_del_def)
qed

lemma gen_hit:
  "map_of (cache svc) (lower topic, n) = Some tree \<Longrightarrow>
   generate_slides_content p svc topic n = (tree, svc, 0)"
  by (simp add: generate_slides_content_def)

lemma gen_fail:
  "map_of (cache svc) (lower topic, n) = None \<Longrightarrow> p topic n = Inl e \<Longrightarrow>
   generate_slides_content p svc topic n = (error_result e, svc, 1)"
  by (simp add: generate_slides_content_def)

lemma gen_store:
  assumes miss: "map_of (cache svc) (lower topic, n) = None"
      and ok: "p topic n = Inr v"
      and inv: "cache_inv svc"
  shows "generate_slides_content p svc topic n =
           (v, svc\<lparr>cache := drop (Suc (length (cache svc)) - max_cache_size svc)
                                  (cache svc @ [((lower topic, n), v)])\<rparr>, 1)"
proof -
  let ?k = "(lower topic, n)"
  let ?c1 = "cache svc @ [(?k, v)]"
  from miss have new: "?k \<notin> fst ` set (cache svc)" by (simp add: map_of_eq_None_iff)
  then have c1: "dict_set (cache svc) ?k v = ?c1" by (rule dict_set_new)
  from inv new have d: "distinct (map fst ?c1)" by (auto simp: cache_inv_def)
  from inv have le: "length (cache svc) \<le> max_cache_size svc" by (simp add: cache_inv_def)
  show ?thesis
  proof (cases "length ?c1 > max_cache_size svc")
    case False
    then have "Suc (length (cache svc)) - max_cache_size svc = 0" by simp
    with False miss ok c1 show ?thesis
      by (simp add: generate_slides_content_def)
  next
    case True
    with le have e: "Suc (length (cache svc)) - max_cache_size svc = 1" by simp
    obtain x xs where x: "?c1 = x # xs" by (cases ?c1) auto
    with d have "dict_del ?c1 (fst x) = xs" by (simp only: dict_del_hd)
    with x have "dict_del ?c1 (fst (hd ?c1)) = drop 1 ?c1" by simp
    with True miss ok c1 e x show ?thesis
      by (simp add: generate_slides_content_def del: drop_append)
  qed
qed

lemma gen_inv:
  assumes "cache_inv svc"
  shows "cache_inv (fst (snd (generate_slides_content p svc topic n))) \<and>
         max_cache_size (fst (snd (generate_slides_content p svc topic n))) = max_cache_size svc"
proof (cases "map_of (cache svc) (lower topic, n)")
  case (Some tree)
  with assms show ?thesis by (simp add: gen_hit)
next
  case None
  show ?thesis
  proof (cases "p topic n")
    case (Inl e)
    with None assms show ?thesis by (simp add: gen_fail)
  next
    case (Inr v)
    from None have new: "(lower topic, n) \<notin> fst ` set (cache svc)"
      by (simp add: map_of_eq_None_iff)
    with assms have d: "distinct (map fst (cache svc @ [((lower topic, n), v)]))"
      by (auto simp: cache_inv_def)
    have "distinct (map fst (drop (Suc (length (cache svc)) - max_cache_size svc)
                               (cache svc @ [((lower topic, n), v)])))"
      unfolding drop_map[symmetric] using d by (rule distinct_drop)
    with assms show ?thesis
      by (simp add: gen_store[where p = p, OF None Inr assms] cache_inv_def)
  qed
qed

lemma serve_inv:
  "cache_inv svc \<Longrightarrow>
   cache_inv (serve svc reqs) \<and> max_cache_size (serve svc reqs) = max_cache_size svc"
proof (induction reqs arbitrary: svc)
  case Nil
  then show ?case by simp
next
  case (Cons req reqs)
  obtain p topic n where req: "req = (p, topic, n)" by (cases req) auto
  from gen_inv[OF Cons.prems, of p topic n] Cons.IH req show ?case by simp
qed

lemma init_inv: "cache_inv llm_service_init"
  by (simp add: cache_inv_def llm_service_init_def)

lemma serve_keys:
  "cache_inv svc \<Longrightarrow> list_all succeeds reqs \<Longrightarrow>
   distinct (map fst (cache svc) @ map request_key reqs) \<Longrightarrow>
   map fst (cache (serve svc reqs)) =
     drop (length (cache svc) + length reqs - max_cache_size svc)
       (map fst (cache svc) @ map request_key reqs)"
proof (induction reqs arbitrary: svc)
  case Nil
  then show ?case by (simp add: cache_inv_def)
next
  case (Cons req reqs)
  obtain p topic n where req: "req = (p, topic, n)" by (cases req) auto
  define k where "k = (lower topic, n)"
  define e where "e = Suc (length (cache svc)) - max_cache_size svc"
  define ks where "ks = map fst (cache svc) @ map request_key (req # reqs)"
  from Cons.prems(2) req obtain v where ok: "p topic n = Inr v"
    by (auto simp: succeeds_def split: sum.splits)
  from Cons.prems(3) req have new: "k \<notin> fst ` set (cache svc)"
    by (auto simp: request_key_def k_def)
  then have miss: "map_of (cache svc) (lower topic, n) = None"
    by (simp add: map_of_eq_None_iff k_def)
  define svc1 where "svc1 = svc\<lparr>cache := drop e (cache svc @ [(k, v)])\<rparr>"
  have step: "generate_slides_content p svc topic n = (v, svc1, 1)"
    unfolding svc1_def e_def k_def using miss ok Cons.prems(1) by (rule gen_store)
  from gen_inv[OF Cons.prems(1), of p topic n] step
  have inv1: "cache_inv svc1" and max1: "max_cache_size svc1 = max_cache_size svc" by simp_all
  from Cons.prems(1) have le: "length (cache svc) \<le> max_cache_size svc"
    by (simp add: cache_inv_def)
  have len1: "length (cache svc1) = Suc (length (cache svc)) - e"
    by (simp add: svc1_def)
  have "map fst (cache svc1) = drop e (map fst (cache svc) @ [k])"
    by (simp add: svc1_def del: drop_append flip: drop_map)
  moreover have "e \<le> length (map fst (cache svc) @ [k])" by (simp add: e_def)
  ultimately have "map fst (cache svc1) @ map request_key reqs
                   = drop e ((map fst (cache svc) @ [k]) @ map request_key reqs)"
    by (simp only: drop_append diff_is_0_eq' drop_0)
  then have keys1: "map fst (cache svc1) @ map request_key reqs = drop e ks"
    using req by (simp add: ks_def k_def request_key_def del: drop_append)
  from Cons.prems(3) have "distinct (drop e ks)"
    unfolding ks_def by (rule distinct_drop)
  with keys1 have d1: "distinct (map fst (cache svc1) @ map request_key reqs)" by simp
  from Cons.prems(2) have s1: "list_all succeeds reqs" by simp
  have "map fst (cache (serve svc1 reqs)) =
          drop (length (cache svc1) + length reqs - max_cache_size svc1)
            (map fst (cache svc1) @ map request_key reqs)"
    using inv1 s1 d1 by (rule Cons.IH)
  also have "\<dots> = drop (length (cache svc1) + length reqs - max_cache_size svc) (drop e ks)"
    by (simp only: keys1 max1)
  also have "\<dots> = drop (length (cache svc1) + length reqs - max_cache_size svc + e) ks"
    by (simp only: drop_drop)
  also have "length (cache svc1) + length reqs - max_cache_size svc + e
               = length (cache svc) + length (req # reqs) - max_cache_size svc"
    using le by (simp add: len1 e_def)
  finally have "map fst (cache (serve svc1 reqs)) =
                  drop (length (cache svc) + length (req # reqs) - max_cache_size svc) ks" .
  moreover from step req have "serve svc (req # reqs) = serve svc1 reqs" by simp
  ultimately show ?case by (simp only: ks_def)
qed

lemma map_of_last:
  assumes "distinct (map fst (xs @ [(k, v)]))" and "e \<le> length xs"
  shows "map_of (drop e (xs @ [(k, v)])) k = Some v"
proof -
  from assms(2) have d: "drop e (xs @ [(k, v)]) = drop e xs @ [(k, v)]" by simp
  have "distinct (map fst (drop e (xs @ [(k, v)])))"
    unfolding drop_map[symmetric] using assms(1) by (rule distinct_drop)
  moreover have "(k, v) \<in> set (drop e (xs @ [(k, v)]))" unfolding d by simp
  ultimately show ?thesis by (simp only: map_of_eq_Some_iff)
qed

text \<open>
  C2. After any sequence of calls from the initial state the cache holds at most 100
  entries. A hit returns the stored tree and leaves the service, and so the order of the
  entries, unchanged. A successful miss on a full cache drops exactly the entry inserted
  first and appends the new one. In particular, after 101 successful requests with distinct
  keys the keys of the cache are those of the 2nd to the 101st request, in order: 100
  entries, the first key absent.
\<close>

theorem cache_fifo_eviction:
  "length (cache (serve llm_service_init reqs)) \<le> 100 \<and>
   (map_of (cache svc) (lower topic, n) = Some tree \<longrightarrow>
      generate_slides_content p svc topic n = (tree, svc, 0)) \<and>
   (svc = serve llm_service_init reqs \<longrightarrow> length (cache svc) = 100 \<longrightarrow>
    map_of (cache svc) (lower topic, n) = None \<longrightarrow> p topic n = Inr v \<longrightarrow>
      generate_slides_content p svc topic n =
        (v, svc\<lparr>cache := tl (cache svc) @ [((lower topic, n), v)]\<rparr>, 1)) \<and>
   (length reqs = 101 \<longrightarrow> list_all succeeds reqs \<longrightarrow> distinct (map request_key reqs) \<longrightarrow>
      map fst (cache (serve llm_service_init reqs)) = tl (map request_key reqs) \<and>
      length (cache (serve llm_service_init reqs)) = 100 \<and>
      request_key (hd reqs) \<notin> fst ` set (cache (serve llm_service_init reqs)))"
proof (intro conjI impI)
  from serve_inv[OF init_inv, of reqs]
  show "length (cache (serve llm_service_init reqs)) \<le> 100"
    by (simp add: cache_inv_def llm_service_init_def)
next
  assume "map_of (cache svc) (lower topic, n) = Some tree"
  then show "generate_slides_content p svc topic n = (tree, svc, 0)" by (rule gen_hit)
next
  assume svc: "svc = serve llm_service_init reqs" and full: "length (cache svc) = 100"
    and miss: "map_of (cache svc) (lower topic, n) = None" and ok: "p topic n = Inr v"
  from serve_inv[OF init_inv, of reqs] svc
  have inv: "cache_inv svc" and mx: "max_cache_size svc = 100"
    by (simp_all add: llm_service_init_def)
  from full obtain x xs where c: "cache svc = x # xs" by (cases "cache svc") auto
  from gen_store[where p = p, OF miss ok inv] full mx c
  show "generate_slides_content p svc topic n =
          (v, svc\<lparr>cache := tl (cache svc) @ [((lower topic, n), v)]\<rparr>, 1)"
    by simp
next
  assume len: "length reqs = 101" and ok: "list_all succeeds reqs"
    and d: "distinct (map request_key reqs)"
  from serve_keys[OF init_inv ok] d len
  have keys: "map fst (cache (serve llm_service_init reqs)) = drop 1 (map request_key reqs)"
    by (simp add: llm_service_init_def)
  then show k: "map fst (cache (serve llm_service_init reqs)) = tl (map request_key reqs)"
    by (simp add: drop_Suc)
  from arg_cong[OF keys, of length] len
  show "length (cache (serve llm_service_init reqs)) = 100" by simp
  from len obtain r rs where r: "reqs = r # rs" by (cases reqs) auto
  with d have "request_key r \<notin> set (map request_key rs)" by simp
  with k r show "request_key (hd reqs) \<notin> fst ` set (cache (serve llm_service_init reqs))"
    by (simp flip: set_map)
qed

lemma sample_requests_ok:
  "length sample_requests = 101 \<and> list_all succeeds sample_requests \<and>
   distinct (map request_key sample_requests)"
  by code_simp

theorem cache_fifo_eviction_witness:
  "length sample_requests = 101 \<and> list_all succeeds sample_requests \<and>
   distinct (map request_key sample_requests) \<and>
   map fst (cache (serve llm_service_init sample_requests)) = tl (map request_key sample_requests) \<and>
   length (cache (serve llm_service_init sample_requests)) = 100 \<and>
   request_key (hd sample_requests) \<notin> fst ` set (cache (serve llm_service_init sample_requests))"
  using cache_fifo_eviction[of sample_requests] sample_requests_ok by blast

text \<open>
  C3. The key is the lowercased topic with the number of slides. After a successful call
  (a hit, or a miss whose producer returned a tree) in any state reached from the initial
  one, a call with a topic that differs only in case and the same number of slides is a hit:
  it returns the same tree without invoking the producer, so the producer is invoked at
  most once over both calls.
\<close>

theorem cache_case_insensitive:
  assumes "lower t1 = lower t2"
      and "svc = serve llm_service_init reqs"
      and "generate_slides_content p svc t1 n = (r1, svc1, k1)"
      and "k1 = 0 \<or> (\<exists>v. p t1 n = Inr v)"
  shows "generate_slides_content p svc1 t2 n = (r1, svc1, 0) \<and> k1 \<le> 1"
proof (cases "map_of (cache svc) (lower t1, n)")
  case (Some tree)
  with assms(3) have "r1 = tree" "svc1 = svc" "k1 = 0" by (simp_all add: gen_hit)
  with Some assms(1) show ?thesis by (simp add: gen_hit)
next
  case None
  from serve_inv[OF init_inv, of reqs] assms(2)
  have inv: "cache_inv svc" and mx: "max_cache_size svc = 100"
    by (simp_all add: llm_service_init_def)
  have "\<exists>v. p t1 n = Inr v"
  proof (cases "p t1 n")
    case (Inl e)
    with None assms(3) have "k1 = 1" by (simp add: gen_fail)
    with assms(4) show ?thesis by simp
  next
    case (Inr v)
    then show ?thesis by blast
  qed
  then obtain v where ok: "p t1 n = Inr v" by blast
  define e where "e = Suc (length (cache svc)) - max_cache_size svc"
  from gen_store[where p = p, OF None ok inv] assms(3)
  have r: "r1 = v" "k1 = 1" and s: "svc1 = svc\<lparr>cache := drop e (cache svc @ [((lower t1, n), v)])\<rparr>"
    by (simp_all add: e_def)
  from None have "(lower t1, n) \<notin> fst ` set (cache svc)" by (simp add: map_of_eq_None_iff)
  with inv have d: "distinct (map fst (cache svc @ [((lower t1, n), v)]))"
    by (auto simp: cache_inv_def)
  from inv mx have "e \<le> length (cache svc)" by (auto simp: e_def cache_inv_def)
  with d have "map_of (drop e (cache svc @ [((lower t1, n), v)])) (lower t1, n) = Some v"
    by (rule map_of_last)
  with s assms(1) have "map_of (cache svc1) (lower t2, n) = Some v" by simp
  with r show ?thesis by (simp add: gen_hit)
qed

theorem cache_case_insensitive_witness:
  "lower ''Rome'' = lower ''rome'' \<and>
   generate_slides_content (\<lambda>topic num_slides. Inr (JObj [(''slides'', JArr [])]))
     (fst (snd (generate_slides_content (\<lambda>topic num_slides. Inr (JObj [(''slides'', JArr [])]))
                  llm_service_init ''Rome'' 5))) ''rome'' 5
   = (JObj [(''slides'', JArr [])],
      fst (snd (generate_slides_content (\<lambda>topic num_slides. Inr (JObj [(''slides'', JArr [])]))
                  llm_service_init ''Rome'' 5)), 0) \<and>
   lower (CHR 0xC9 # ''COLE'') = lower (CHR 0xE9 # ''cole'') \<and>
   snd (snd (generate_slides_content (\<lambda>topic num_slides. Inr (JObj [(''slides'', JArr [])]))
     (fst (snd (generate_slides_content (\<lambda>topic num_slides. Inr (JObj [(''slides'', JArr [])]))
                  llm_service_init (CHR 0xC9 # ''COLE'') 5))) (CHR 0xE9 # ''cole'') 5)) = 0"
proof -
  let ?p = "\<lambda>(topic::string) (num_slides::int). (Inr (JObj [(''slides'', JArr [])]) :: string + json)"
  have l: "lower ''Rome'' = lower ''rome''" by code_simp
  have l': "lower (CHR 0xC9 # ''COLE'') = lower (CHR 0xE9 # ''cole'')" by code_simp
  obtain r1 svc1 k1 where g: "generate_slides_content ?p llm_service_init ''Rome'' 5 = (r1, svc1, k1)"
    by (cases "generate_slides_content ?p llm_service_init ''Rome'' 5") auto
  obtain r2 svc2 k2 where
    g': "generate_slides_content ?p llm_service_init (CHR 0xC9 # ''COLE'') 5 = (r2, svc2, k2)"
    by (cases "generate_slides_content ?p llm_service_init (CHR 0xC9 # ''COLE'') 5") auto
  have r1: "r1 = JObj [(''slides'', JArr [])]"
    using g by (simp add: generate_slides_content_def llm_service_init_def split: if_splits)
  have s: "llm_service_init = serve llm_service_init []" by simp
  have "k1 = 0 \<or> (\<exists>v. ?p ''Rome'' 5 = Inr v)" by simp
  from cache_case_insensitive[where p = ?p, OF l s g this] g r1
  have 1: "generate_slides_content ?p
             (fst (snd (generate_slides_content ?p llm_service_init ''Rome'' 5))) ''rome'' 5
           = (JObj [(''slides'', JArr [])],
              fst (snd (generate_slides_content ?p llm_service_init ''Rome'' 5)), 0)"
    by simp
  have "k2 = 0 \<or> (\<exists>v. ?p (CHR 0xC9 # ''COLE'') 5 = Inr v)" by simp
  from cache_case_insensitive[where p = ?p, OF l' s g' this] g'
  have 2: "snd (snd (generate_slides_content ?p
             (fst (snd (generate_slides_content ?p llm_service_init (CHR 0xC9 # ''COLE'') 5)))
             (CHR 0xE9 # ''cole'') 5)) = 0"
    by simp
  from l l' 1 2 show ?thesis by blast
qed

text \<open>
  C4, as amended. When the producer raises on a miss, the call returns the error result
  and the service is unchanged, so nothing is stored; an identical request that follows is
  a miss again and invokes the producer, whatever the producer does then.
\<close>

theorem producer_failure_not_cached:
  assumes "map_of (cache svc) (lower topic, n) = None"
      and "p topic n = Inl e"
  shows "generate_slides_content p svc topic n = (error_result e, svc, 1) \<and>
         snd (snd (generate_slides_content p' svc topic n)) = 1"
proof -
  have "snd (snd (generate_slides_content p' svc topic n)) = 1"
    using assms(1)
    by (cases "p' topic n")
       (simp_all add: generate_slides_content_def Let_def split: list.splits)
  with gen_fail[where p = p, OF assms] show ?thesis by simp
qed

theorem producer_failure_not_cached_witness:
  "map_of (cache llm_service_init) (lower ''Rome'', 5) = None \<and>
   generate_slides_content (\<lambda>topic num_slides. Inl ''timeout'') llm_service_init ''Rome'' 5
     = (error_result ''timeout'', llm_service_init, 1) \<and>
   snd (snd (generate_slides_content (\<lambda>topic num_slides. Inl ''timeout'') llm_service_init ''Rome'' 5)) = 1"
proof -
  have m: "map_of (cache llm_service_init) (lower ''Rome'', 5) = None"
    by (simp add: llm_service_init_def)
  from producer_failure_not_cached[where p = "\<lambda>topic num_slides. Inl ''timeout''"
         and p' = "\<lambda>topic num_slides. Inl ''timeout''" and e = "''timeout''", OF m] m
  show ?thesis by simp
qed

text \<open>
  The claim fails for a producer that returns an error indicator instead of raising: the
  decoded value is stored whatever it holds, so a dictionary with an \<open>error\<close> key is
  cached, and the identical request that follows is a hit that does not invoke the
  producer.
\<close>

theorem returned_error_cached_counterexample:
  "generate_slides_content error_producer llm_service_init ''Rome'' 5 =
     (error_result ''quota'',
      llm_service_init\<lparr>cache := [((''rome'', 5), error_result ''quota'')]\<rparr>, 1) \<and>
   generate_slides_content error_producer
     (llm_service_init\<lparr>cache := [((''rome'', 5), error_result ''quota'')]\<rparr>) ''Rome'' 5 =
     (error_result ''quota'',
      llm_service_init\<lparr>cache := [((''rome'', 5), error_result ''quota'')]\<rparr>, 0)"
proof -
  have l: "lower ''Rome'' = ''rome''" by code_simp
  show ?thesis
    by (simp add: generate_slides_content_def error_producer_def llm_service_init_def l Let_def)
qed

section \<open>Properties of the renderers and the assembler\<close>

lemma process_text:
  "is_text v \<Longrightarrow> process_markdown_to_runs p v = Inr (p\<lparr>runs := spans (text_of v)\<rparr>)"
  by (cases v) (simp_all add: is_text_def text_of_def process_markdown_to_runs_spans)

lemma add_points_texts:
  "list_all is_text pts \<Longrightarrow> add_points tf lvl pts = Inr (tf @ map (para_of lvl) pts)"
proof (induction pts arbitrary: tf)
  case Nil
  then show ?case by simp
next
  case (Cons v pts)
  then show ?case
    by (simp add: process_text bind_err_def add_paragraph_def para_of_def)
qed

lemma py_get_lookup: "py_get (JObj kvs) k dflt = Inr (lookup kvs k dflt)"
  by (simp add: py_get_def lookup_def)

lemma lookup_text:
  "text_or_absent kvs k \<Longrightarrow> is_text (lookup kvs k (JStr d))"
  by (simp add: text_or_absent_def lookup_def is_text_def split: option.splits)

lemma points_iter:
  "points_ok kvs \<Longrightarrow>
   py_iter (lookup kvs ''points'' (JArr [])) = Inr (points_of kvs) \<and> list_all is_text (points_of kvs)"
  by (auto simp: points_ok_def lookup_def points_of_def py_iter_def split: option.splits json.splits)

lemma map_of_const:
  "map_of (map (\<lambda>idx. (idx, c)) idxs) i = (if i \<in> set idxs then Some c else None)"
  by (induction idxs) auto

lemma add_slide_get:
  "idx \<in> set (layout_placeholders l) \<Longrightarrow> placeholders_get (add_slide l) idx = Inr [add_paragraph]"
  by (simp add: placeholders_get_def add_slide_def map_of_const)

lemma add_slide_title:
  "0 \<in> set (layout_placeholders l) \<Longrightarrow> shapes_title (add_slide l) = Some [add_paragraph]"
  by (simp add: shapes_title_def add_slide_def map_of_const)

lemma map_of_set:
  "map_of (map (\<lambda>(i, old). if i = idx then (i, tf) else (i, old)) kvs) j =
     (if j = idx then (case map_of kvs j of None \<Rightarrow> None | Some old \<Rightarrow> Some tf) else map_of kvs j)"
  by (induction kvs) auto

lemma set_text_frame_get:
  "placeholders_get (set_text_frame sl idx tf) j =
     (if j = idx then (case placeholders_get sl j of Inl e \<Rightarrow> Inl e | Inr old \<Rightarrow> Inr tf)
      else placeholders_get sl j)"
  by (simp add: placeholders_get_def set_text_frame_def map_of_set split: option.splits)

lemma set_text_frame_layout: "from_layout (set_text_frame sl idx tf) = from_layout sl"
  by (simp add: set_text_frame_def)

lemma fill_column_eq:
  assumes "text_or_absent c ''heading''" and "points_ok c"
  shows "fill_column (p # ps) (JObj c) =
           Inr (p\<lparr>runs := []\<rparr> # heading_paragraphs c @ map (para_of 1) (points_of c))"
proof -
  let ?h = "lookup c ''heading'' JNull"
  from points_iter[OF assms(2)]
  have it: "py_iter (lookup c ''points'' (JArr [])) = Inr (points_of c)"
    and tx: "list_all is_text (points_of c)" by simp_all
  show ?thesis
  proof (cases "truthy ?h")
    case False
    then show ?thesis
      by (simp add: fill_column_def text_frame_clear_def bind_err_def py_get_lookup it
            add_points_texts[OF tx] heading_paragraphs_def)
  next
    case True
    then obtain h where h: "map_of c ''heading'' = Some h"
      by (cases "map_of c ''heading''") (auto simp: lookup_def truthy_def)
    with assms(1) have t: "is_text h" by (simp add: text_or_absent_def)
    from h have l: "?h = h" by (simp add: lookup_def)
    from h have g: "py_getitem (JObj c) ''heading'' = Inr h" by (simp add: py_getitem_def)
    from True l show ?thesis
      by (simp add: fill_column_def text_frame_clear_def bind_err_def py_get_lookup it g
            process_text[OF t] add_points_texts[OF tx] heading_paragraphs_def para_of_def
            add_paragraph_def)
  qed
qed

lemma has_placeholdersD:
  "has_placeholders prs i idxs \<Longrightarrow>
   py_index (slide_layouts prs) i = Inr (slide_layouts prs ! i) \<and>
   (\<forall>idx\<in>set idxs. idx \<in> set (layout_placeholders (slide_layouts prs ! i)))"
  by (simp add: has_placeholders_def py_index_def list_all_iff)

lemma add_bullet_points_slide_eq:
  assumes tpl: "has_placeholders prs 1 [0, 1]"
      and t: "text_or_absent kvs ''title''" and pts: "points_ok kvs"
  shows "\<exists>sl. add_bullet_points_slide prs (JObj kvs) = Inr (prs\<lparr>slides := slides prs @ [sl]\<rparr>) \<and>
              from_layout sl = slide_layouts prs ! 1 \<and>
              placeholders_get sl 0 = Inr (title_frame ''Slide Title'' kvs) \<and>
              placeholders_get sl 1 =
                Inr (apply_font_style (add_paragraph # map (para_of 0) (points_of kvs)) False) \<and>
              sl = bullet_points_slide_of (slide_layouts prs ! 1) kvs"
proof -
  let ?l = "slide_layouts prs ! 1"
  let ?body = "apply_font_style (add_paragraph # map (para_of 0) (points_of kvs)) False"
  let ?sl = "set_text_frame (set_text_frame (add_slide ?l) 0 (title_frame ''Slide Title'' kvs)) 1 ?body"
  from has_placeholdersD[OF tpl]
  have ix: "py_index (slide_layouts prs) 1 = Inr ?l"
    and p0: "0 \<in> set (layout_placeholders ?l)" and p1: "1 \<in> set (layout_placeholders ?l)"
    by simp_all
  from points_iter[OF pts]
  have it: "py_iter (lookup kvs ''points'' (JArr [])) = Inr (points_of kvs)"
    and tx: "list_all is_text (points_of kvs)" by simp_all
  have tt: "is_text (lookup kvs ''title'' (JStr ''Slide Title''))" using t by (rule lookup_text)
  have "add_bullet_points_slide prs (JObj kvs) = Inr (prs\<lparr>slides := slides prs @ [?sl]\<rparr>)"
    unfolding add_bullet_points_slide_def
    using ix add_slide_get[OF p1] add_slide_title[OF p0] process_text[OF tt] it
      add_points_texts[OF tx]
    by (simp add: Let_def text_frame_of_def py_get_lookup title_frame_def bind_err_def
          text_frame_clear_def add_paragraph_def py_index_def para_of_def)
  moreover have "from_layout ?sl = ?l" by (simp add: set_text_frame_layout add_slide_def)
  moreover have "placeholders_get ?sl 0 = Inr (title_frame ''Slide Title'' kvs)"
    using add_slide_get[OF p0] add_slide_get[OF p1] by (simp add: set_text_frame_get)
  moreover have "placeholders_get ?sl 1 = Inr ?body"
    using add_slide_get[OF p0] add_slide_get[OF p1] by (simp add: set_text_frame_get)
  moreover have "?sl = bullet_points_slide_of ?l kvs" by (simp add: bullet_points_slide_of_def)
  ultimately show ?thesis by blast
qed

lemma add_title_slide_eq:
  assumes tpl: "has_placeholders prs 0 [0, 1]"
      and t: "text_or_absent kvs ''title''" and st: "text_or_absent kvs ''subtitle''"
  shows "\<exists>sl. add_title_slide prs (JObj kvs) = Inr (prs\<lparr>slides := slides prs @ [sl]\<rparr>) \<and>
              from_layout sl = slide_layouts prs ! 0 \<and>
              placeholders_get sl 0 = Inr (title_frame ''Presentation Title'' kvs) \<and>
              placeholders_get sl 1 =
                Inr (apply_font_style [para_of 0 (lookup kvs ''subtitle'' (JStr []))] False) \<and>
              sl = title_slide_of (slide_layouts prs ! 0) kvs"
proof -
  let ?l = "slide_layouts prs ! 0"
  let ?sub = "apply_font_style [para_of 0 (lookup kvs ''subtitle'' (JStr []))] False"
  let ?sl = "set_text_frame (set_text_frame (add_slide ?l) 0 (title_frame ''Presentation Title'' kvs)) 1 ?sub"
  from has_placeholdersD[OF tpl]
  have ix: "py_index (slide_layouts prs) 0 = Inr ?l"
    and p0: "0 \<in> set (layout_placeholders ?l)" and p1: "1 \<in> set (layout_placeholders ?l)"
    by simp_all
  have tt: "is_text (lookup kvs ''title'' (JStr ''Presentation Title''))" using t by (rule lookup_text)
  have ts: "is_text (lookup kvs ''subtitle'' (JStr []))" using st by (rule lookup_text)
  have "add_title_slide prs (JObj kvs) = Inr (prs\<lparr>slides := slides prs @ [?sl]\<rparr>)"
    unfolding add_title_slide_def
    using ix add_slide_get[OF p1] add_slide_title[OF p0] process_text[OF tt]
      process_text[OF ts]
    by (simp add: Let_def text_frame_of_def py_get_lookup title_frame_def bind_err_def
          add_paragraph_def py_index_def para_of_def)
  moreover have "from_layout ?sl = ?l" by (simp add: set_text_frame_layout add_slide_def)
  moreover have "placeholders_get ?sl 0 = Inr (title_frame ''Presentation Title'' kvs)"
    using add_slide_get[OF p0] add_slide_get[OF p1] by (simp add: set_text_frame_get)
  moreover have "placeholders_get ?sl 1 = Inr ?sub"
    using add_slide_get[OF p0] add_slide_get[OF p1] by (simp add: set_text_frame_get)
  moreover have "?sl = title_slide_of ?l kvs" by (simp add: title_slide_of_def)
  ultimately show ?thesis by blast
qed

lemma column_okD:
  "column_ok kvs k \<Longrightarrow>
   lookup kvs k (JObj []) = JObj (column_of kvs k) \<and>
   text_or_absent (column_of kvs k) ''heading'' \<and> points_ok (column_of kvs k)"
  by (auto simp: column_ok_def lookup_def column_of_def text_or_absent_def points_ok_def
           split: option.splits json.splits)

lemma add_two_column_slide_eq:
  assumes tpl: "has_placeholders prs 3 [0, 1, 2]"
      and t: "text_or_absent kvs ''title''"
      and lc: "column_ok kvs ''left_column''" and rc: "column_ok kvs ''right_column''"
  shows "\<exists>sl. add_two_column_slide prs (JObj kvs) = Inr (prs\<lparr>slides := slides prs @ [sl]\<rparr>) \<and>
              from_layout sl = slide_layouts prs ! 3 \<and>
              placeholders_get sl 0 = Inr (title_frame ''Two Column Title'' kvs) \<and>
              placeholders_get sl 1 = Inr (column_frame (column_of kvs ''left_column'')) \<and>
              placeholders_get sl 2 = Inr (column_frame (column_of kvs ''right_column'')) \<and>
              sl = two_column_slide_of (slide_layouts prs ! 3) kvs"
proof -
  let ?l = "slide_layouts prs ! 3"
  let ?L = "column_of kvs ''left_column''"
  let ?R = "column_of kvs ''right_column''"
  let ?sl = "set_text_frame (set_text_frame (set_text_frame (add_slide ?l) 0
               (title_frame ''Two Column Title'' kvs)) 1 (column_frame ?L)) 2 (column_frame ?R)"
  from has_placeholdersD[OF tpl]
  have ix: "py_index (slide_layouts prs) 3 = Inr ?l"
    and p0: "0 \<in> set (layout_placeholders ?l)" and p1: "1 \<in> set (layout_placeholders ?l)"
    and p2: "2 \<in> set (layout_placeholders ?l)"
    by simp_all
  have tt: "is_text (lookup kvs ''title'' (JStr ''Two Column Title''))" using t by (rule lookup_text)
  from column_okD[OF lc] have l: "lookup kvs ''left_column'' (JObj []) = JObj ?L"
    and fl: "fill_column [add_paragraph] (JObj ?L)
             = Inr (add_paragraph # heading_paragraphs ?L @ map (para_of 1) (points_of ?L))"
    by (simp_all add: fill_column_eq add_paragraph_def)
  from column_okD[OF rc] have r: "lookup kvs ''right_column'' (JObj []) = JObj ?R"
    and fr: "fill_column [add_paragraph] (JObj ?R)
             = Inr (add_paragraph # heading_paragraphs ?R @ map (para_of 1) (points_of ?R))"
    by (simp_all add: fill_column_eq add_paragraph_def)
  have "add_two_column_slide prs (JObj kvs) = Inr (prs\<lparr>slides := slides prs @ [?sl]\<rparr>)"
    unfolding add_two_column_slide_def
    using ix add_slide_get[OF p1] add_slide_get[OF p2] add_slide_title[OF p0] process_text[OF tt]
      l r fl fr
    by (simp add: Let_def text_frame_of_def py_get_lookup title_frame_def column_frame_def
          bind_err_def add_paragraph_def py_index_def para_of_def)
  moreover have "from_layout ?sl = ?l" by (simp add: set_text_frame_layout add_slide_def)
  moreover have "placeholders_get ?sl 0 = Inr (title_frame ''Two Column Title'' kvs)"
    using add_slide_get[OF p0] add_slide_get[OF p1] add_slide_get[OF p2]
    by (simp add: set_text_frame_get)
  moreover have "placeholders_get ?sl 1 = Inr (column_frame ?L)"
    using add_slide_get[OF p0] add_slide_get[OF p1] add_slide_get[OF p2]
    by (simp add: set_text_frame_get)
  moreover have "placeholders_get ?sl 2 = Inr (column_frame ?R)"
    using add_slide_get[OF p0] add_slide_get[OF p1] add_slide_get[OF p2]
    by (simp add: set_text_frame_get)
  moreover have "?sl = two_column_slide_of ?l kvs" by (simp add: two_column_slide_of_def)
  ultimately show ?thesis by blast
qed

lemma template_ok_slides: "template_ok (prs\<lparr>slides := sls\<rparr>) = template_ok prs"
  by (simp add: template_ok_def has_placeholders_def)

lemma add_slides_step:
  assumes tpl: "template_ok prs" and ok: "slide_record_ok r"
  shows "add_slides prs (r # rest) =
           add_slides (prs\<lparr>slides := slides prs
              @ map (rendered_slide (slide_layouts prs)) (filter known_layout [r])\<rparr>) rest"
proof -
  from ok obtain kvs where r: "r = JObj kvs"
    and c: "content_ok (lookup kvs ''layout'' JNull) (lookup kvs ''content'' JNull)"
    by (cases r) (auto simp: slide_record_ok_def)
  let ?ly = "lookup kvs ''layout'' JNull"
  let ?ct = "lookup kvs ''content'' JNull"
  have rl: "record_layout r = ?ly" using r by (simp add: record_layout_def)
  have unfold: "add_slides prs (r # rest) =
      bind_err (if ?ly = JStr ''title_slide'' then add_title_slide prs ?ct
                else if ?ly = JStr ''bullet_points'' then add_bullet_points_slide prs ?ct
                else if ?ly = JStr ''two_column'' then add_two_column_slide prs ?ct
                else Inr prs) (\<lambda>prs'. add_slides prs' rest)"
    using r by (simp add: py_get_lookup bind_err_def)
  consider (title) "?ly = JStr ''title_slide''" | (bullet) "?ly = JStr ''bullet_points''"
    | (two) "?ly = JStr ''two_column''" | (other) "\<not> known_layout r"
    using rl by (auto simp: known_layout_def)
  then show ?thesis
  proof cases
    case title
    with c obtain ckvs where ct: "?ct = JObj ckvs" and
      a: "text_or_absent ckvs ''title''" "text_or_absent ckvs ''subtitle''"
      by (cases ?ct) (auto simp: content_ok_def)
    from r ct have rc: "record_content r = ckvs" by (simp add: record_content_def)
    from tpl have "has_placeholders prs 0 [0, 1]" by (simp add: template_ok_def)
    from add_title_slide_eq[OF this a]
    have "add_title_slide prs (JObj ckvs)
          = Inr (prs\<lparr>slides := slides prs @ [title_slide_of (slide_layouts prs ! 0) ckvs]\<rparr>)"
      by blast
    with title ct rl rc unfold show ?thesis
      by (simp add: bind_err_def known_layout_def rendered_slide_def)
  next
    case bullet
    with c obtain ckvs where ct: "?ct = JObj ckvs" and
      a: "text_or_absent ckvs ''title''" "points_ok ckvs"
      by (cases ?ct) (auto simp: content_ok_def)
    from r ct have rc: "record_content r = ckvs" by (simp add: record_content_def)
    from tpl have "has_placeholders prs 1 [0, 1]" by (simp add: template_ok_def)
    from add_bullet_points_slide_eq[OF this a]
    have "add_bullet_points_slide prs (JObj ckvs)
          = Inr (prs\<lparr>slides := slides prs @ [bullet_points_slide_of (slide_layouts prs ! 1) ckvs]\<rparr>)"
      by blast
    with bullet ct rl rc unfold show ?thesis
      by (simp add: bind_err_def known_layout_def rendered_slide_def)
  next
    case two
    with c obtain ckvs where ct: "?ct = JObj ckvs" and
      a: "text_or_absent ckvs ''title''" "column_ok ckvs ''left_column''"
         "column_ok ckvs ''right_column''"
      by (cases ?ct) (auto simp: content_ok_def)
    from r ct have rc: "record_content r = ckvs" by (simp add: record_content_def)
    from tpl have "has_placeholders prs 3 [0, 1, 2]" by (simp add: template_ok_def)
    from add_two_column_slide_eq[OF this a]
    have "add_two_column_slide prs (JObj ckvs)
          = Inr (prs\<lparr>slides := slides prs @ [two_column_slide_of (slide_layouts prs ! 3) ckvs]\<rparr>)"
      by blast
    with two ct rl rc unfold show ?thesis
      by (simp add: bind_err_def known_layout_def rendered_slide_def)
  next
    case other
    with rl unfold show ?thesis
      by (simp add: bind_err_def known_layout_def)
  qed
qed

lemma add_slides_ok:
  "template_ok prs \<Longrightarrow> list_all slide_record_ok rs \<Longrightarrow>
   add_slides prs rs =
     Inr (prs\<lparr>slides := slides prs
            @ map (rendered_slide (slide_layouts prs)) (filter known_layout rs)\<rparr>)"
proof (induction rs arbitrary: prs)
  case Nil
  then show ?case by simp
next
  case (Cons r rs)
  from Cons.prems have ok: "slide_record_ok r" and oks: "list_all slide_record_ok rs" by simp_all
  let ?prs1 = "prs\<lparr>slides := slides prs
                 @ map (rendered_slide (slide_layouts prs)) (filter known_layout [r])\<rparr>"
  have s: "add_slides prs (r # rs) = add_slides ?prs1 rs"
    using Cons.prems(1) ok by (rule add_slides_step)
  have "template_ok ?prs1" using Cons.prems(1) by (simp add: template_ok_slides)
  from Cons.IH[OF this oks] s show ?case by simp
qed

lemma create_presentation_eq:
  assumes "fs (template_path aspect_ratio) = Some tpl"
      and "map_of kvs ''slides'' = None \<or> (\<exists>rs. map_of kvs ''slides'' = Some (JArr rs))"
  shows "create_presentation fs (JObj kvs) output_path aspect_ratio =
           bind_err (add_slides tpl (records (JObj kvs))) (\<lambda>prs'.
             Inr \<lparr>saved_path = output_path, saved = prs',
                  printed = [''Using template: '' @ template_path aspect_ratio]\<rparr>)"
proof -
  from assms(2) have "py_iter (case map_of kvs ''slides'' of None \<Rightarrow> JArr [] | Some v \<Rightarrow> v)
                      = Inr (records (JObj kvs))"
    by (auto simp: py_iter_def records_def)
  with assms(1) show ?thesis
    by (simp add: create_presentation_def Presentation_def template_path_def Let_def py_get_def
          bind_err_def)
qed

text \<open>
  C5, as amended. For every content tree in which each record of a known layout carries a
  content dictionary of the shape of its layout, with the template of the aspect ratio
  present and fit for the renderers, the assembler returns a document and raises nothing.
  The document has the slides of the template followed by exactly one new slide for each
  record whose layout is \<open>title_slide\<close>, \<open>bullet_points\<close> or \<open>two_column\<close>, in the order of the
  records, each the slide rendered from the content of its own record; a record with any
  other layout adds no slide, whatever else it holds. The tree with a \<open>bogus\<close> record and a
  \<open>title_slide\<close> record gives a document with exactly one slide.
\<close>

theorem unknown_layouts_skipped:
  assumes "content_tree tree"
      and "fs (template_path aspect_ratio) = Some tpl"
      and "template_ok tpl"
  shows "create_presentation fs tree output_path aspect_ratio =
           Inr \<lparr>saved_path = output_path,
                saved = tpl\<lparr>slides := slides tpl
                          @ map (rendered_slide (slide_layouts tpl))
                              (filter known_layout (records tree))\<rparr>,
                printed = [''Using template: '' @ template_path aspect_ratio]\<rparr>"
proof -
  from assms(1) obtain kvs where t: "tree = JObj kvs"
    by (cases tree) (auto simp: content_tree_def)
  have sl: "map_of kvs ''slides'' = None \<or> (\<exists>rs. map_of kvs ''slides'' = Some (JArr rs))"
    and ok: "list_all slide_record_ok (records (JObj kvs))"
    using assms(1) t
    by (auto simp: content_tree_def records_def split: option.splits json.splits)
  from add_slides_ok[OF assms(3) ok]
    create_presentation_eq[where fs = fs and output_path = output_path, OF assms(2) sl] t
  show ?thesis by (simp add: bind_err_def)
qed

lemma default_presentation_ok: "template_ok default_presentation"
  by (simp add: template_ok_def has_placeholders_def default_presentation_def)

lemma bullet_title:
  "slide_titles [bullet_points_slide_of (slide_layouts default_presentation ! 1) [(''title'', JStr ''A'')],
                 bullet_points_slide_of (slide_layouts default_presentation ! 1) [(''title'', JStr ''B'')]]
   = [''A'', ''B'']"
  by (simp add: slide_titles_def bullet_points_slide_of_def set_text_frame_get add_slide_get
        default_presentation_def title_frame_def apply_font_style_def para_of_def lookup_def
        text_of_def paragraph_text_def spans_def match_at_def is_delim_def cons_first_def
        set_text_def escape_text_def escape_char_def is_control_def add_run_def
        apply_font_style_run_def Let_def)

theorem unknown_layouts_skipped_witness:
  "content_tree skip_example \<and> content_tree order_example \<and>
   template_ok default_presentation \<and>
   (\<exists>doc. create_presentation default_files skip_example ''out.pptx'' ''16:9'' = Inr doc \<and>
          length (slides (saved doc)) = 1) \<and>
   (\<exists>doc. create_presentation default_files order_example ''out.pptx'' ''16:9'' = Inr doc \<and>
          slide_titles (slides (saved doc)) = [''A'', ''B''])"
proof -
  have c: "content_tree skip_example"
    by (simp add: content_tree_def skip_example_def slide_record_ok_def content_ok_def
          lookup_def text_or_absent_def is_text_def)
  have c': "content_tree order_example"
    by (simp add: content_tree_def order_example_def slide_record_ok_def content_ok_def
          lookup_def text_or_absent_def is_text_def points_ok_def)
  have f: "default_files (template_path ''16:9'') = Some default_presentation"
    by (simp add: default_files_def)
  have k: "length (filter known_layout (records skip_example)) = 1"
    by (simp add: records_def skip_example_def known_layout_def record_layout_def lookup_def)
  have k': "map (rendered_slide (slide_layouts default_presentation))
              (filter known_layout (records order_example))
            = [bullet_points_slide_of (slide_layouts default_presentation ! 1) [(''title'', JStr ''A'')],
               bullet_points_slide_of (slide_layouts default_presentation ! 1) [(''title'', JStr ''B'')]]"
    by (simp add: records_def order_example_def known_layout_def record_layout_def lookup_def
          rendered_slide_def record_content_def)
  have s: "slides default_presentation = []" by (simp add: default_presentation_def)
  from unknown_layouts_skipped[where fs = default_files and output_path = "''out.pptx''",
         OF c f default_presentation_ok] k s
  have 1: "\<exists>doc. create_presentation default_files skip_example ''out.pptx'' ''16:9'' = Inr doc \<and>
          length (slides (saved doc)) = 1"
    by simp
  from unknown_layouts_skipped[where fs = default_files and output_path = "''out.pptx''",
         OF c' f default_presentation_ok] k' s bullet_title
  have 2: "\<exists>doc. create_presentation default_files order_example ''out.pptx'' ''16:9'' = Inr doc \<and>
          slide_titles (slides (saved doc)) = [''A'', ''B'']"
    by simp
  from c c' default_presentation_ok 1 2 show ?thesis by blast
qed

text \<open>
  The claim as stated, for every content tree, fails: a \<open>title_slide\<close> record without
  \<open>content\<close> makes the renderer call \<open>get\<close> on \<open>None\<close>, and a title that is a number makes
  the split of the markup raise, so the assembler raises and no document is written.
\<close>

theorem unknown_layouts_skipped_counterexample:
  "create_presentation default_files no_content_example ''out.pptx'' ''16:9'' = Inl AttributeError \<and>
   create_presentation default_files number_title_example ''out.pptx'' ''16:9'' = Inl TypeError"
  by (simp add: create_presentation_def Presentation_def default_files_def Let_def bind_err_def
        py_get_def py_iter_def no_content_example_def number_title_example_def
        add_title_slide_def py_index_def default_presentation_def add_slide_def
        placeholders_get_def shapes_title_def text_frame_of_def add_paragraph_def
        process_markdown_to_runs_def as_text_def)

text \<open>
  C6 fails on the code. When no template can be located, opening the template raises the
  library's \<open>PackageNotFoundError\<close>; the handler catches \<open>FileNotFoundError\<close> only, so the
  exception leaves \<open>create_presentation\<close>: no fallback to the blank document, no warning
  printed, no document written, for every content tree and aspect ratio.
\<close>

theorem missing_template_raises:
  "create_presentation (\<lambda>path. None) tree output_path aspect_ratio = Inl PackageNotFoundError"
  by (simp add: create_presentation_def Presentation_def bind_err_def Let_def)

text \<open>
  C8, as amended. In a two-column render each column region is cleared, which leaves one
  empty paragraph at its head, and then populated in order: the heading at level 0 when
  it is present and not empty, then each entry of \<open>points\<close> at level 1; a missing column
  counts as an empty one. For the left column with heading \<open>H\<close> and points \<open>p1\<close>, \<open>p2\<close> the
  region holds four paragraphs: the empty one, \<open>H\<close> at level 0, \<open>p1\<close> and \<open>p2\<close> at level 1.
\<close>

theorem two_column_regions:
  assumes "has_placeholders prs 3 [0, 1, 2]"
      and "text_or_absent kvs ''title''"
      and "column_ok kvs ''left_column''" and "column_ok kvs ''right_column''"
  shows "\<exists>sl. add_two_column_slide prs (JObj kvs) = Inr (prs\<lparr>slides := slides prs @ [sl]\<rparr>) \<and>
           placeholders_get sl 1 =
             Inr (apply_font_style
                    (add_paragraph # heading_paragraphs (column_of kvs ''left_column'')
                       @ map (para_of 1) (points_of (column_of kvs ''left_column''))) False) \<and>
           placeholders_get sl 2 =
             Inr (apply_font_style
                    (add_paragraph # heading_paragraphs (column_of kvs ''right_column'')
                       @ map (para_of 1) (points_of (column_of kvs ''right_column''))) False)"
  using add_two_column_slide_eq[OF assms] by (auto simp: column_frame_def)

lemma spans_plain:
  "spans ''H'' = [add_run\<lparr>run_text := ''H''\<rparr>]"
  "spans ''p1'' = [add_run\<lparr>run_text := ''p1''\<rparr>]"
  "spans ''p2'' = [add_run\<lparr>run_text := ''p2''\<rparr>]"
  "spans ''Slide Title'' = [add_run\<lparr>run_text := ''Slide Title''\<rparr>]"
  by (simp_all add: spans_def match_at_def is_delim_def cons_first_def set_text_plain
        is_control_def)

lemma run_text_styled: "run_text (apply_font_style_run b r) = run_text r"
  by (simp add: apply_font_style_run_def Let_def)

lemma outline_styled: "outline (apply_font_style tf b) = outline tf"
  by (induction tf)
     (simp_all add: outline_def apply_font_style_def paragraph_text_def run_text_styled comp_def)

lemma region_last:
  "res = Inr (prs\<lparr>slides := slides prs @ [sl]\<rparr>) \<Longrightarrow> placeholders_get sl idx = Inr tf \<Longrightarrow>
   region res idx = tf"
  by (simp add: region_def)

lemma example_column_outline:
  "outline (column_frame (column_of
      [(''left_column'',
        JObj [(''heading'', JStr ''H''), (''points'', JArr [JStr ''p1'', JStr ''p2''])])]
      ''left_column''))
   = [(0, []), (0, ''H''), (1, ''p1''), (1, ''p2'')]"
  unfolding column_frame_def outline_styled
  by (simp add: column_of_def heading_paragraphs_def lookup_def truthy_def points_of_def
        para_of_def text_of_def spans_plain outline_def paragraph_text_def add_paragraph_def
        add_run_def)

lemma two_column_example_outline:
  "outline (region (add_two_column_slide default_presentation two_column_example) 1)
     = [(0, []), (0, ''H''), (1, ''p1''), (1, ''p2'')]"
proof -
  let ?kvs = "[(''left_column'',
               JObj [(''heading'', JStr ''H''), (''points'', JArr [JStr ''p1'', JStr ''p2''])])]"
  have h: "has_placeholders default_presentation 3 [0, 1, 2]"
    by (simp add: has_placeholders_def default_presentation_def)
  have a: "text_or_absent ?kvs ''title''" "column_ok ?kvs ''left_column''"
    "column_ok ?kvs ''right_column''"
    by (simp_all add: text_or_absent_def column_ok_def points_ok_def is_text_def)
  from add_two_column_slide_eq[OF h a] obtain sl where
    "add_two_column_slide default_presentation (JObj ?kvs)
       = Inr (default_presentation\<lparr>slides := slides default_presentation @ [sl]\<rparr>)"
    "placeholders_get sl 1 = Inr (column_frame (column_of ?kvs ''left_column''))"
    by blast
  then have "region (add_two_column_slide default_presentation (JObj ?kvs)) 1
             = column_frame (column_of ?kvs ''left_column'')"
    by (rule region_last)
  then show ?thesis
    by (simp only: two_column_example_def example_column_outline)
qed

theorem two_column_regions_witness:
  "has_placeholders default_presentation 3 [0, 1, 2] \<and>
   outline (region (add_two_column_slide default_presentation two_column_example) 1)
     = [(0, []), (0, ''H''), (1, ''p1''), (1, ''p2'')]"
proof -
  let ?kvs = "[(''left_column'',
               JObj [(''heading'', JStr ''H''), (''points'', JArr [JStr ''p1'', JStr ''p2''])])]"
  have h: "has_placeholders default_presentation 3 [0, 1, 2]"
    by (simp add: has_placeholders_def default_presentation_def)
  have a: "text_or_absent ?kvs ''title''" "column_ok ?kvs ''left_column''"
    "column_ok ?kvs ''right_column''"
    by (simp_all add: text_or_absent_def column_ok_def points_ok_def is_text_def)
  from two_column_regions[OF h a] obtain sl where
    "add_two_column_slide default_presentation (JObj ?kvs)
       = Inr (default_presentation\<lparr>slides := slides default_presentation @ [sl]\<rparr>)"
    "placeholders_get sl 1 =
       Inr (apply_font_style
              (add_paragraph # heading_paragraphs (column_of ?kvs ''left_column'')
                 @ map (para_of 1) (points_of (column_of ?kvs ''left_column''))) False)"
    by blast
  then have "region (add_two_column_slide default_presentation (JObj ?kvs)) 1
             = apply_font_style
                 (add_paragraph # heading_paragraphs (column_of ?kvs ''left_column'')
                    @ map (para_of 1) (points_of (column_of ?kvs ''left_column''))) False"
    by (rule region_last)
  then have "outline (region (add_two_column_slide default_presentation two_column_example) 1)
     = [(0, []), (0, ''H''), (1, ''p1''), (1, ''p2'')]"
    by (simp only: two_column_example_def example_column_outline[unfolded column_frame_def])
  with h show ?thesis by simp
qed

text \<open>
  The claim as stated fails: the region of the example holds four paragraphs, not three,
  because \<open>text_frame.clear()\<close> keeps one empty paragraph and the paragraphs are appended
  after it; and a heading that is present but empty is not appended, the region then
  holds the empty paragraph only.
\<close>

theorem two_column_three_paragraphs_counterexample:
  "outline (region (add_two_column_slide default_presentation two_column_example) 1)
     = [(0, []), (0, ''H''), (1, ''p1''), (1, ''p2'')] \<and>
   length (region (add_two_column_slide default_presentation two_column_example) 1) \<noteq> 3 \<and>
   region (add_two_column_slide default_presentation empty_heading_example) 1
     = [\<lparr>runs = [], level = 0\<rparr>]"
proof -
  let ?kvs = "[(''left_column'', JObj [(''heading'', JStr [])])]"
  have h: "has_placeholders default_presentation 3 [0, 1, 2]"
    by (simp add: has_placeholders_def default_presentation_def)
  have a: "text_or_absent ?kvs ''title''" "column_ok ?kvs ''left_column''"
    "column_ok ?kvs ''right_column''"
    by (simp_all add: text_or_absent_def column_ok_def points_ok_def is_text_def)
  from add_two_column_slide_eq[OF h a] obtain sl where
    "add_two_column_slide default_presentation (JObj ?kvs)
       = Inr (default_presentation\<lparr>slides := slides default_presentation @ [sl]\<rparr>)"
    "placeholders_get sl 1 = Inr (column_frame (column_of ?kvs ''left_column''))"
    by blast
  then have "region (add_two_column_slide default_presentation (JObj ?kvs)) 1
             = column_frame (column_of ?kvs ''left_column'')"
    by (rule region_last)
  then have e: "region (add_two_column_slide default_presentation empty_heading_example) 1
     = [\<lparr>runs = [], level = 0\<rparr>]"
    by (simp add: empty_heading_example_def column_frame_def column_of_def
          heading_paragraphs_def lookup_def truthy_def points_of_def apply_font_style_def
          add_paragraph_def)
  from arg_cong[OF two_column_example_outline, of length]
  have "length (region (add_two_column_slide default_presentation two_column_example) 1) = 4"
    by (simp add: outline_def)
  with two_column_example_outline e show ?thesis by simp
qed

text \<open>
  C9, as amended. A \<open>bullet_points\<close> record with empty content assembles, on a template
  whose layout 1 has the title and body placeholders, into one new slide whose title text
  is \<open>Slide Title\<close> and whose body is the cleared region with nothing appended: it holds
  exactly one paragraph, the empty one that clearing leaves, without any run.
\<close>

theorem bullet_points_defaults:
  assumes "fs (template_path aspect_ratio) = Some tpl"
      and "has_placeholders tpl 1 [0, 1]"
  shows "\<exists>doc sl title. create_presentation fs bullet_example output_path aspect_ratio = Inr doc \<and>
           slides (saved doc) = slides tpl @ [sl] \<and>
           placeholders_get sl 0 = Inr title \<and>
           map paragraph_text title = [''Slide Title''] \<and>
           placeholders_get sl 1 = Inr [\<lparr>runs = [], level = 0\<rparr>]"
proof -
  have a: "text_or_absent [] ''title''" "points_ok []"
    by (simp_all add: text_or_absent_def points_ok_def)
  from add_bullet_points_slide_eq[OF assms(2) a] obtain sl where
    b: "add_bullet_points_slide tpl (JObj []) = Inr (tpl\<lparr>slides := slides tpl @ [sl]\<rparr>)"
    and t: "placeholders_get sl 0 = Inr (title_frame ''Slide Title'' [])"
    and p: "placeholders_get sl 1 = Inr (apply_font_style (add_paragraph # map (para_of 0) (points_of [])) False)"
    by blast
  let ?doc = "\<lparr>saved_path = output_path, saved = tpl\<lparr>slides := slides tpl @ [sl]\<rparr>,
               printed = [''Using template: '' @ template_path aspect_ratio]\<rparr>"
  let ?kvs = "[(''slides'', JArr [JObj [(''layout'', JStr ''bullet_points''), (''content'', JObj [])]])]"
  have s: "map_of ?kvs ''slides'' = None \<or> (\<exists>rs. map_of ?kvs ''slides'' = Some (JArr rs))"
    by simp
  from create_presentation_eq[where fs = fs and output_path = output_path, OF assms(1) s] b
  have c: "create_presentation fs bullet_example output_path aspect_ratio = Inr ?doc"
    by (simp add: bullet_example_def bind_err_def py_get_def records_def)
  have tt: "map paragraph_text (title_frame ''Slide Title'' []) = [''Slide Title'']"
    by (simp add: title_frame_def apply_font_style_def para_of_def lookup_def text_of_def
          spans_plain paragraph_text_def run_text_styled add_run_def)
  have pp: "apply_font_style (add_paragraph # map (para_of 0) (points_of [])) False
            = [\<lparr>runs = [], level = 0\<rparr>]"
    by (simp add: points_of_def apply_font_style_def add_paragraph_def)
  from c t tt p pp show ?thesis by force
qed

theorem bullet_points_defaults_witness:
  "has_placeholders default_presentation 1 [0, 1] \<and>
   (\<exists>doc sl title.
      create_presentation (\<lambda>path. Some default_presentation) bullet_example ''out.pptx'' ''16:9''
        = Inr doc \<and>
      slides (saved doc) = [sl] \<and>
      placeholders_get sl 0 = Inr title \<and>
      map paragraph_text title = [''Slide Title''] \<and>
      placeholders_get sl 1 = Inr [\<lparr>runs = [], level = 0\<rparr>])"
proof -
  have h: "has_placeholders default_presentation 1 [0, 1]"
    by (simp add: has_placeholders_def default_presentation_def)
  have f: "(\<lambda>path. Some default_presentation) (template_path ''16:9'') = Some default_presentation"
    by simp
  have s: "slides default_presentation = []" by (simp add: default_presentation_def)
  from bullet_points_defaults[where fs = "\<lambda>path. Some default_presentation"
         and output_path = "''out.pptx''" and aspect_ratio = "''16:9''", OF f h] h s
  show ?thesis by simp
qed

text \<open>
  The claim as stated fails: the body region does not hold zero paragraphs but one, the
  empty paragraph that \<open>text_frame.clear()\<close> keeps.
\<close>

theorem bullet_points_body_counterexample:
  "region (add_bullet_points_slide default_presentation (JObj [])) 1
     = [\<lparr>runs = [], level = 0\<rparr>] \<and>
   length (region (add_bullet_points_slide default_presentation (JObj [])) 1) \<noteq> 0"
proof -
  have h: "has_placeholders default_presentation 1 [0, 1]"
    by (simp add: has_placeholders_def default_presentation_def)
  have a: "text_or_absent [] ''title''" "points_ok []"
    by (simp_all add: text_or_absent_def points_ok_def)
  from add_bullet_points_slide_eq[OF h a] obtain sl where
    "add_bullet_points_slide default_presentation (JObj [])
       = Inr (default_presentation\<lparr>slides := slides default_presentation @ [sl]\<rparr>)"
    "placeholders_get sl 1
       = Inr (apply_font_style (add_paragraph # map (para_of 0) (points_of [])) False)"
    by blast
  then have "region (add_bullet_points_slide default_presentation (JObj [])) 1
             = apply_font_style (add_paragraph # map (para_of 0) (points_of [])) False"
    by (rule region_last)
  then show ?thesis
    by (simp add: points_of_def apply_font_style_def add_paragraph_def)
qed

end
